theory Spec2Isabelle
  imports Main "HOL-Library.Word"
begin

unbundle bit_operations_syntax

section \<open>The platform layer of src/platform\_linux.cc\<close>

text \<open>
  The file queries the kernel through the C library.  Each function of the file is a
  HOL function here; what the C library and the kernel hand back (the bytes of a
  pseudo-file, the result of \<open>readlink\<close>, the list of \<open>getifaddrs\<close>) is an
  argument.  C integers are words of their width: \<open>int\<close> and \<open>unsigned int\<close>
  have 32 bits, \<open>unsigned long long\<close> has 64, and \<open>size_t\<close> has the width
  \<open>'s\<close> of the target (32 on ILP32, 64 on LP64).

  A C statement with no defined meaning (an access outside an array, a null or dangling
  pointer, a division by zero) ends the function with \<open>Undefined\<close>.
\<close>

datatype ub = OutOfBounds | NullPointer | DanglingPointer | DivisionByZero

datatype 'a outcome = Returned 'a | Undefined ub

subsection \<open>The process title (lines 64--98)\<close>

text \<open>
  \<open>process_title\<close> is a file-level pointer, \<open>NULL\<close> at program start, to a
  string that \<open>strdup\<close> allocated.  The heap holds the live blocks, those of the
  callers as well as the one this file owns; an address is the identity of an
  allocation, so \<open>malloc\<close> takes the next fresh one, and \<open>free\<close> removes a block.
  A pointer is an address or \<open>NULL\<close> (\<open>None\<close>).  A C string is the list of its
  characters before the terminating NUL.
\<close>

type_synonym addr = nat

record title_state =
  blocks :: "addr \<rightharpoonup> string"
  fresh :: addr
  process_title :: "addr option"
  pr_name :: "addr option"

definition initial_title_state :: title_state where
  "initial_title_state =
     \<lparr>blocks = Map.empty, fresh = 0, process_title = None, pr_name = None\<rparr>"

text \<open>
  \<open>strdup(s)\<close> reads the string \<open>s\<close> points to, which is undefined for a null
  pointer and for a block that is no longer allocated, and copies it to a new block; it
  returns \<open>NULL\<close> when \<open>malloc\<close> has no memory, which is the first argument.
\<close>

definition strdup :: "bool \<Rightarrow> addr option \<Rightarrow> title_state \<Rightarrow> (addr option \<times> title_state) outcome" where
  "strdup enomem s st =
     (case s of
        None \<Rightarrow> Undefined NullPointer
      | Some a \<Rightarrow>
          (case blocks st a of
             None \<Rightarrow> Undefined DanglingPointer
           | Some cs \<Rightarrow>
               if enomem then Returned (None, st)
               else Returned (Some (fresh st),
                              st\<lparr>blocks := (blocks st)(fresh st \<mapsto> cs), fresh := Suc (fresh st)\<rparr>)))"

definition free :: "addr \<Rightarrow> title_state \<Rightarrow> title_state outcome" where
  "free p st =
     (case blocks st p of
        None \<Rightarrow> Undefined DanglingPointer
      | Some _ \<Rightarrow> Returned (st\<lparr>blocks := (blocks st)(p := None)\<rparr>))"

text \<open>
  \<open>SetupArgs\<close> stores a copy of \<open>argv[0]\<close> and gives \<open>argv\<close> back; \<open>argv\<close>
  is the list of its pointers, \<open>argv[argc]\<close> being \<open>NULL\<close>.
\<close>

definition SetupArgs ::
  "bool \<Rightarrow> addr list \<Rightarrow> title_state \<Rightarrow> (addr list \<times> title_state) outcome" where
  "SetupArgs enomem argv st =
     (case strdup enomem (case argv of [] \<Rightarrow> None | a # _ \<Rightarrow> Some a) st of
        Undefined u \<Rightarrow> Undefined u
      | Returned (p, st') \<Rightarrow> Returned (argv, st'\<lparr>process_title := p\<rparr>))"

text \<open>
  \<open>SetProcessTitle\<close>: with \<open>PR_SET_NAME\<close> defined (the first argument) the old
  string is freed, then the string \<open>title\<close> points to is copied and the copy handed
  to \<open>prctl\<close>; the result of \<open>strdup\<close> is not tested.  Without \<open>PR_SET_NAME\<close>
  the function throws a V8 \<open>Error\<close> (its message says that \<open>process.title\<close> is
  not writable on this system) and the state stays.  The first component of the result
  is the thrown exception, if any.
\<close>

datatype exception = Title_not_writable

definition SetProcessTitle ::
  "bool \<Rightarrow> bool \<Rightarrow> addr option \<Rightarrow> title_state \<Rightarrow> (exception option \<times> title_state) outcome" where
  "SetProcessTitle have_PR_SET_NAME enomem title st =
     (if have_PR_SET_NAME then
        (case (case process_title st of
                 None \<Rightarrow> Returned st
               | Some old \<Rightarrow> free old st) of
           Undefined u \<Rightarrow> Undefined u
         | Returned st1 \<Rightarrow>
             (case strdup enomem title st1 of
                Undefined u \<Rightarrow> Undefined u
              | Returned (p, st2) \<Rightarrow>
                  Returned (None, st2\<lparr>process_title := p, pr_name := p\<rparr>)))
      else Returned (Some Title_not_writable, st))"

text \<open>
  \<open>GetProcessTitle\<close> returns the pointer and stores \<open>strlen\<close> of the string in
  \<open>*len\<close>, an \<open>int\<close>.
\<close>

definition GetProcessTitle :: "title_state \<Rightarrow> (addr option \<times> 32 word) outcome" where
  "GetProcessTitle st =
     (case process_title st of
        Some p \<Rightarrow>
          (case blocks st p of
             None \<Rightarrow> Undefined DanglingPointer
           | Some s \<Rightarrow> Returned (Some p, word_of_nat (length s)))
      | None \<Rightarrow> Returned (None, 0))"

text \<open>
  The heap as the allocator and this file keep it: every live block was allocated
  before \<open>fresh\<close>, and \<open>process_title\<close> is \<open>NULL\<close> or points to a live block.
\<close>

definition title_inv :: "title_state \<Rightarrow> bool" where
  "title_inv st =
     ((\<forall>a \<in> dom (blocks st). a < fresh st) \<and>
      (case process_title st of None \<Rightarrow> True | Some p \<Rightarrow> p \<in> dom (blocks st)))"

text \<open>
  The heap without the block \<open>process_title\<close> points to.
\<close>

definition released :: "title_state \<Rightarrow> addr \<rightharpoonup> string" where
  "released st =
     (case process_title st of None \<Rightarrow> blocks st | Some old \<Rightarrow> (blocks st)(old := None))"

text \<open>
  A caller's heap with the strings \<open>worker-1\<close> and \<open>worker-2\<close> at the addresses 0
  and 1, before this file has stored any title.
\<close>

definition caller_state :: title_state where
  "caller_state =
     \<lparr>blocks = [0 \<mapsto> ''worker-1'', 1 \<mapsto> ''worker-2''], fresh = 2,
      process_title = None, pr_name = None\<rparr>"

subsection \<open>Network interfaces (lines 324--404)\<close>

text \<open>
  \<open>getifaddrs\<close> yields a linked list of \<open>struct ifaddrs\<close>; \<open>ifa_addr\<close> may be
  \<open>NULL\<close>.  The macros of \<open>net/if.h\<close> and \<open>sys/socket.h\<close> are not part of the
  file and are parameters, as is \<open>inet_ntop\<close> (address family and address bytes to
  text).
\<close>

record sockaddr =
  sa_family :: "16 word"
  sa_data :: "8 word list"

record ifaddrs =
  ifa_name :: string
  ifa_flags :: "32 word"
  ifa_addr :: "sockaddr option"

record net_macros =
  IFF_UP :: "32 word"
  IFF_RUNNING :: "32 word"
  IFF_LOOPBACK :: "32 word"
  PF_PACKET :: "16 word"
  AF_INET :: "16 word"
  AF_INET6 :: "16 word"

text \<open>The values the macros have on Linux, for the examples.\<close>

definition linux_macros :: net_macros where
  "linux_macros =
     \<lparr>IFF_UP = 0x1, IFF_RUNNING = 0x40, IFF_LOOPBACK = 0x8,
      PF_PACKET = 17, AF_INET = 2, AF_INET6 = 10\<rparr>"

record address_entry =
  address :: string
  family :: string
  internal :: bool

text \<open>
  The returned V8 object maps an interface name to the array of its address objects;
  the association list keeps the order in which the names were first set.
\<close>

type_synonym interfaces = "(string \<times> address_entry list) list"

datatype js_result = JS_undefined | JS_throw_errno int | JS_object interfaces

text \<open>
  Lines 369--375 and 396: the array stored under \<open>name\<close> is taken if
  \<open>ret->Has(name)\<close>, a new one is stored otherwise, and the object is appended to it.
\<close>

fun ret_append :: "string \<Rightarrow> address_entry \<Rightarrow> interfaces \<Rightarrow> interfaces" where
  "ret_append name obj [] = [(name, [obj])]"
| "ret_append name obj ((k, ifarr) # ret) =
     (if k = name then (k, ifarr @ [obj]) # ret else (k, ifarr) # ret_append name obj ret)"

text \<open>Lines 377--394: the address object of one entry whose \<open>ifa_addr\<close> is \<open>sa\<close>.\<close>

definition address_object ::
  "net_macros \<Rightarrow> (16 word \<Rightarrow> 8 word list \<Rightarrow> string) \<Rightarrow> ifaddrs \<Rightarrow> sockaddr \<Rightarrow> address_entry" where
  "address_object K inet_ntop ent sa =
     (let (ip, fam) =
            (if sa_family sa = AF_INET6 K then (inet_ntop (AF_INET6 K) (sa_data sa), ''IPv6'')
             else if sa_family sa = AF_INET K then (inet_ntop (AF_INET K) (sa_data sa), ''IPv4'')
             else (''<unknown sa family>'', ''<unknown>''))
      in \<lparr>address = ip, family = fam, internal = (ifa_flags ent AND IFF_LOOPBACK K \<noteq> 0)\<rparr>)"

text \<open>The loop of lines 352--398 over the list, \<open>ret\<close> being the object built so far.\<close>

fun ifaddrs_loop ::
  "net_macros \<Rightarrow> (16 word \<Rightarrow> 8 word list \<Rightarrow> string) \<Rightarrow> ifaddrs list \<Rightarrow> interfaces \<Rightarrow> interfaces" where
  "ifaddrs_loop K inet_ntop [] ret = ret"
| "ifaddrs_loop K inet_ntop (ent # addrs) ret =
     (if \<not> (ifa_flags ent AND IFF_UP K \<noteq> 0 \<and> ifa_flags ent AND IFF_RUNNING K \<noteq> 0)
      then ifaddrs_loop K inet_ntop addrs ret
      else
        (case ifa_addr ent of
           None \<Rightarrow> ifaddrs_loop K inet_ntop addrs ret
         | Some sa \<Rightarrow>
             if sa_family sa = PF_PACKET K then ifaddrs_loop K inet_ntop addrs ret
             else ifaddrs_loop K inet_ntop addrs
                    (ret_append (ifa_name ent) (address_object K inet_ntop ent sa) ret)))"

text \<open>
  \<open>GetInterfaceAddresses\<close>: the first argument tells whether \<open>ANDROID\<close> is defined
  (then the function returns \<open>undefined\<close> at once); the last is what \<open>getifaddrs\<close>
  gives, \<open>errno\<close> or the list.
\<close>

definition GetInterfaceAddresses ::
  "bool \<Rightarrow> net_macros \<Rightarrow> (16 word \<Rightarrow> 8 word list \<Rightarrow> string) \<Rightarrow> int + ifaddrs list \<Rightarrow> js_result" where
  "GetInterfaceAddresses android K inet_ntop getifaddrs =
     (if android then JS_undefined
      else
        (case getifaddrs of
           Inl errno \<Rightarrow> JS_throw_errno errno
         | Inr addrs \<Rightarrow> JS_object (ifaddrs_loop K inet_ntop addrs [])))"

text \<open>
  The entries the specification wants surfaced: the interface is up and running, the
  address record is not null and its family is not the packet family.
\<close>

definition spec_surfaced :: "net_macros \<Rightarrow> ifaddrs \<Rightarrow> bool" where
  "spec_surfaced K ent =
     (ifa_flags ent AND IFF_UP K \<noteq> 0 \<and> ifa_flags ent AND IFF_RUNNING K \<noteq> 0 \<and>
      (case ifa_addr ent of None \<Rightarrow> False | Some sa \<Rightarrow> sa_family sa \<noteq> PF_PACKET K))"

subsection \<open>The executable path (lines 196--201)\<close>

text \<open>
  \<open>readlink\<close> on \<open>/proc/self/exe\<close>: \<open>link\<close> is the target of the link, or
  \<open>None\<close> when the link cannot be resolved.  The call stores at most \<open>bufsiz\<close>
  bytes of the target, without a NUL, and returns their number; it returns \<open>-1\<close> on
  failure.  The system call of Linux takes the size as an \<open>int\<close>, the low 32 bits of
  \<open>bufsiz\<close>, and fails (\<open>EINVAL\<close>) when that is not positive.  \<open>buffer\<close> is the
  caller's array.
\<close>

definition readlink :: "string option \<Rightarrow> string \<Rightarrow> nat \<Rightarrow> (int \<times> string) outcome" where
  "readlink link buffer bufsiz =
     (case link of
        None \<Rightarrow> Returned (- 1, buffer)
      | Some target \<Rightarrow>
          (let b = sint (word_of_nat bufsiz :: 32 word)
           in if b \<le> 0 then Returned (- 1, buffer)
              else
                (let n = min (length target) (nat b)
                 in if n \<le> length buffer then Returned (int n, take n target @ drop n buffer)
                    else Undefined OutOfBounds)))"

text \<open>
  \<open>GetExecutablePath\<close> gives the return value, the buffer and \<open>*size\<close>.  The
  result of \<open>readlink\<close>, an \<open>ssize_t\<close>, is stored in the \<open>size_t\<close> that
  \<open>size\<close> points to and compared with 0 there.
\<close>

definition GetExecutablePath ::
  "string option \<Rightarrow> string \<Rightarrow> 's::len word \<Rightarrow> (int \<times> string \<times> 's word) outcome" where
  "GetExecutablePath link buffer size0 =
     (case readlink link buffer (unat (size0 - 1)) of
        Undefined u \<Rightarrow> Undefined u
      | Returned (r, buffer1) \<Rightarrow>
          (let size1 = (word_of_int r :: 's word)
           in if size1 \<le> 0 then Returned (- 1, buffer1, size1)
              else if unat size1 < length buffer1
                then Returned (0, buffer1[unat size1 := CHR 0x00], size1)
                else Undefined OutOfBounds))"

subsection \<open>The C library: \<open>scanf\<close> formats\<close>

text \<open>
  A stream (a \<open>FILE\<close> being read, or the string given to \<open>sscanf\<close>) is the list
  of the characters still to be read.  The formats of the file use eight directives:
  white space, an ordinary character, \<open>%d\<close>, \<open>%u\<close>, \<open>%llu\<close>, \<open>%c\<close>, and
  the assignment-suppressing \<open>%*s\<close> and \<open>%*llu\<close>.
\<close>

definition isspace :: "char \<Rightarrow> bool" where
  "isspace c =
     (c = CHR '' '' \<or> c = CHR 0x09 \<or> c = CHR 0x0A \<or> c = CHR 0x0B \<or> c = CHR 0x0C \<or> c = CHR 0x0D)"

definition isdigit :: "char \<Rightarrow> bool" where
  "isdigit c = (48 \<le> (of_char c :: nat) \<and> (of_char c :: nat) \<le> 57)"

definition digits_val :: "string \<Rightarrow> nat" where
  "digits_val ds = foldl (\<lambda>n c. 10 * n + (of_char c - 48)) 0 ds"

text \<open>
  The input item of a numeric conversion: white space is skipped, then an optional sign
  and the longest run of decimal digits are read.  At the end of the input the
  conversion is an input failure; with no digit it is a matching failure, the sign
  being consumed.
\<close>

datatype scan_num = Num_eof | Num_mismatch string | Num bool nat string

definition scan_number :: "string \<Rightarrow> scan_num" where
  "scan_number s0 =
     (case dropWhile isspace s0 of
        [] \<Rightarrow> Num_eof
      | c # cs \<Rightarrow>
          (let s1 = (if c = CHR ''-'' \<or> c = CHR ''+'' then cs else c # cs)
           in if takeWhile isdigit s1 = [] then Num_mismatch s1
              else Num (c = CHR ''-'') (digits_val (takeWhile isdigit s1)) (dropWhile isdigit s1)))"

text \<open>
  The value of the item is that of \<open>strtol\<close> (for \<open>%d\<close>) or \<open>strtoul\<close> (for
  \<open>%u\<close> and \<open>%llu\<close>) with 64-bit results, which clamp a value out of range; it is
  stored cut to the width of the object the argument points to.
\<close>

definition strtol :: "bool \<Rightarrow> nat \<Rightarrow> int" where
  "strtol neg n = (if neg then max (- (2 ^ 63)) (- int n) else min (2 ^ 63 - 1) (int n))"

definition strtoul :: "bool \<Rightarrow> nat \<Rightarrow> nat" where
  "strtoul neg n =
     (if 2 ^ 64 \<le> n then 2 ^ 64 - 1 else if neg then (2 ^ 64 - n) mod 2 ^ 64 else n)"

datatype directive =
  Space | Ordinary char | Conv_d | Conv_u | Conv_llu | Conv_c | Skip_s | Skip_llu

datatype arg = Arg_int "32 word" | Arg_llu "64 word" | Arg_char char

datatype scan_end = Format_done | Input_failure | Matching_failure

text \<open>
  \<open>scanf fmt s args\<close> runs the directives of \<open>fmt\<close> on the stream \<open>s\<close>; it
  gives the values assigned, in the order of the arguments, how the call ended, and the
  stream left.
\<close>

fun scanf :: "directive list \<Rightarrow> string \<Rightarrow> arg list \<Rightarrow> arg list \<times> scan_end \<times> string" where
  "scanf [] s args = (args, Format_done, s)"
| "scanf (Space # fmt) s args = scanf fmt (dropWhile isspace s) args"
| "scanf (Ordinary c # fmt) s args =
     (case s of
        [] \<Rightarrow> (args, Input_failure, [])
      | x # xs \<Rightarrow> if x = c then scanf fmt xs args else (args, Matching_failure, s))"
| "scanf (Conv_c # fmt) s args =
     (case s of
        [] \<Rightarrow> (args, Input_failure, [])
      | x # xs \<Rightarrow> scanf fmt xs (args @ [Arg_char x]))"
| "scanf (Skip_s # fmt) s args =
     (if dropWhile isspace s = [] then (args, Input_failure, [])
      else scanf fmt (dropWhile (\<lambda>c. \<not> isspace c) (dropWhile isspace s)) args)"
| "scanf (Conv_d # fmt) s args =
     (case scan_number s of
        Num_eof \<Rightarrow> (args, Input_failure, [])
      | Num_mismatch rest \<Rightarrow> (args, Matching_failure, rest)
      | Num neg n rest \<Rightarrow> scanf fmt rest (args @ [Arg_int (word_of_int (strtol neg n))]))"
| "scanf (Conv_u # fmt) s args =
     (case scan_number s of
        Num_eof \<Rightarrow> (args, Input_failure, [])
      | Num_mismatch rest \<Rightarrow> (args, Matching_failure, rest)
      | Num neg n rest \<Rightarrow> scanf fmt rest (args @ [Arg_int (word_of_nat (strtoul neg n))]))"
| "scanf (Conv_llu # fmt) s args =
     (case scan_number s of
        Num_eof \<Rightarrow> (args, Input_failure, [])
      | Num_mismatch rest \<Rightarrow> (args, Matching_failure, rest)
      | Num neg n rest \<Rightarrow> scanf fmt rest (args @ [Arg_llu (word_of_nat (strtoul neg n))]))"
| "scanf (Skip_llu # fmt) s args =
     (case scan_number s of
        Num_eof \<Rightarrow> (args, Input_failure, [])
      | Num_mismatch rest \<Rightarrow> (args, Matching_failure, rest)
      | Num neg n rest \<Rightarrow> scanf fmt rest args)"

text \<open>
  The return value: \<open>EOF\<close>, which is \<open>-1\<close>, when the input ended before anything
  was assigned, and the number of assignments otherwise.
\<close>

definition scanf_return :: "arg list \<Rightarrow> scan_end \<Rightarrow> int" where
  "scanf_return args e = (if e = Input_failure \<and> args = [] then - 1 else int (length args))"

subsection \<open>Memory usage (lines 63 and 101--193)\<close>

text \<open>
  \<open>fscanf(f, "%d ", &itmp)\<close> and \<open>fscanf(f, "%u ", &itmp)\<close> with the test
  \<open>== 0\<close> that follows each: \<open>None\<close> is \<open>goto error\<close>, otherwise the stream and
  \<open>itmp\<close> go on, \<open>itmp\<close> unchanged when nothing was assigned.
\<close>

definition fscanf_itmp :: "directive \<Rightarrow> string \<times> 32 word \<Rightarrow> (string \<times> 32 word) option" where
  "fscanf_itmp cv fi =
     (case fi of (f, itmp) \<Rightarrow>
        (case scanf [cv, Space] f [] of (args, e, f') \<Rightarrow>
           if scanf_return args e = 0 then None
           else Some (f', (case args of [Arg_int v] \<Rightarrow> v | _ \<Rightarrow> itmp))))"

fun fscanf_fields :: "directive list \<Rightarrow> string \<times> 32 word \<Rightarrow> (string \<times> 32 word) option" where
  "fscanf_fields [] fi = Some fi"
| "fscanf_fields (cv # cvs) fi =
     (case fscanf_itmp cv fi of None \<Rightarrow> None | Some fi' \<Rightarrow> fscanf_fields cvs fi')"

text \<open>
  The loop of lines 117--127.  \<open>buf\<close> is the static array of \<open>MAXPATHLEN + 1\<close>
  characters, \<open>cbuf\<close> the index the pointer stands at; the loop has no bound on it.
  \<open>None\<close> is \<open>goto error\<close>.
\<close>

function exe_loop :: "string \<Rightarrow> string \<Rightarrow> nat \<Rightarrow> bool \<Rightarrow> (string \<times> string) option outcome" where
  "exe_loop f buf cbuf foundExeEnd =
     (if length buf \<le> cbuf then Undefined OutOfBounds
      else
        (case scanf [Conv_c] f [] of (args, e, f') \<Rightarrow>
           if scanf_return args e = 0 then Returned None
           else
             (let buf' = (case args of [Arg_char c] \<Rightarrow> buf[cbuf := c] | _ \<Rightarrow> buf)
              in if buf' ! cbuf = CHR '')'' then exe_loop f' buf' (Suc cbuf) True
                 else if foundExeEnd \<and> buf' ! cbuf = CHR '' ''
                   then Returned (Some (f', buf'[cbuf := CHR 0x00]))
                   else exe_loop f' buf' (Suc cbuf) foundExeEnd)))"
  by pat_completeness auto
termination
  by (relation "measure (\<lambda>(f, buf, cbuf, foundExeEnd). length buf - cbuf)")
     (auto split: list.splits arg.splits)

text \<open>Lines 114--127: the first character goes to \<open>buf[0]\<close>, then the loop runs.\<close>

definition scan_exe :: "string \<Rightarrow> string \<Rightarrow> (string \<times> string) option outcome" where
  "scan_exe f buf =
     (if buf = [] then Undefined OutOfBounds
      else
        (case scanf [Conv_c] f [] of (args, e, f') \<Rightarrow>
           if scanf_return args e = 0 then Returned None
           else exe_loop f' (case args of [Arg_char c] \<Rightarrow> buf[0 := c] | _ \<Rightarrow> buf) 1 False))"

text \<open>
  The fields between the state and the virtual memory size (lines 131--167), and those
  after the resident set size (lines 178--184), with the conversion each is read with.
\<close>

definition fields_4_to_22 :: "directive list" where
  "fields_4_to_22 =
     [Conv_d, Conv_d, Conv_d, Conv_d, Conv_d,
      Conv_u, Conv_u, Conv_u, Conv_u, Conv_u,
      Conv_d, Conv_d, Conv_d, Conv_d, Conv_d, Conv_d,
      Conv_u, Conv_u, Conv_d]"

definition fields_25_to_28 :: "directive list" where
  "fields_25_to_28 = [Conv_u, Conv_u, Conv_u, Conv_u]"

text \<open>
  \<open>GetMemory\<close>.  \<open>page_size\<close> is what \<open>getpagesize\<close> returns, \<open>itmp0\<close> the
  indeterminate first value of \<open>itmp\<close>, \<open>file\<close> the contents of
  \<open>/proc/self/stat\<close> (\<open>None\<close> when \<open>fopen\<close> fails), \<open>buf\<close> the static array
  as the last call left it, \<open>rss\<close> and \<open>vsize\<close> what the two pointers point to.
  The result is the return value, \<open>*rss\<close>, \<open>*vsize\<close> and \<open>buf\<close>.
\<close>

definition GetMemory ::
  "'s::len word \<Rightarrow> 32 word \<Rightarrow> string option \<Rightarrow> string \<Rightarrow> 's word \<Rightarrow> 's word \<Rightarrow>
     (int \<times> 's word \<times> 's word \<times> string) outcome" where
  "GetMemory page_size itmp0 file buf rss vsize =
     (case file of
        None \<Rightarrow> Returned (- 1, rss, vsize, buf)
      | Some f0 \<Rightarrow>
          (case fscanf_itmp Conv_d (f0, itmp0) of
             None \<Rightarrow> Returned (- 1, rss, vsize, buf)
           | Some (f1, itmp1) \<Rightarrow>
               (case scan_exe f1 buf of
                  Undefined u \<Rightarrow> Undefined u
                | Returned None \<Rightarrow> Returned (- 1, rss, vsize, buf)
                | Returned (Some (f2, buf2)) \<Rightarrow>
                    (case scanf [Conv_c, Space] f2 [] of (args, e, f3) \<Rightarrow>
                       if scanf_return args e = 0 then Returned (- 1, rss, vsize, buf2)
                       else
                         (case fscanf_fields fields_4_to_22 (f3, itmp1) of
                            None \<Rightarrow> Returned (- 1, rss, vsize, buf2)
                          | Some fi22 \<Rightarrow>
                              (case fscanf_itmp Conv_u fi22 of
                                 None \<Rightarrow> Returned (- 1, rss, vsize, buf2)
                               | Some (f23, itmp23) \<Rightarrow>
                                   (let vsize' = (scast itmp23 :: 's word) in
                                    case fscanf_itmp Conv_u (f23, itmp23) of
                                      None \<Rightarrow> Returned (- 1, rss, vsize', buf2)
                                    | Some (f24, itmp24) \<Rightarrow>
                                        (let rss' = (scast itmp24 :: 's word) * page_size in
                                         case fscanf_fields fields_25_to_28 (f24, itmp24) of
                                           None \<Rightarrow> Returned (- 1, rss', vsize', buf2)
                                         | Some _ \<Rightarrow> Returned (0, rss', vsize', buf2)))))))))"

text \<open>
  A name has a space after a closing parenthesis: the loop above stops at such a space.
\<close>

definition space_after_paren :: "string \<Rightarrow> bool" where
  "space_after_paren name = (CHR '' '' \<in> set (dropWhile (\<lambda>c. c \<noteq> CHR '')'') name))"

subsection \<open>The text of a status record\<close>

text \<open>
  The kernel writes \<open>/proc/self/stat\<close> as one line: the process id, the executable
  name in parentheses, the state character, and then numeric fields, each after one
  space, in decimal.  \<open>stat_record pid name state fs\<close> is that line, \<open>fs\<close> being
  the fields from the fourth on; the virtual memory size is field 23, \<open>fs ! 19\<close>, and
  the resident set size is field 24, \<open>fs ! 20\<close>.
\<close>

definition digit_char :: "nat \<Rightarrow> char" where
  "digit_char d = ''0123456789'' ! d"

fun dec :: "nat \<Rightarrow> string" where
  "dec n = (if n < 10 then [digit_char n] else dec (n div 10) @ [digit_char (n mod 10)])"

definition show_int :: "int \<Rightarrow> string" where
  "show_int v = (if v < 0 then CHR ''-'' # dec (nat (- v)) else dec (nat v))"

definition stat_fields :: "int list \<Rightarrow> string" where
  "stat_fields fs = concat (map (\<lambda>v. CHR '' '' # show_int v) fs) @ [CHR 0x0A]"

definition stat_record :: "int \<Rightarrow> string \<Rightarrow> char \<Rightarrow> int list \<Rightarrow> string" where
  "stat_record pid name state fs =
     show_int pid @ '' ('' @ name @ '') '' @ state # stat_fields fs"

text \<open>What \<open>%d\<close> and \<open>%u\<close> store in \<open>itmp\<close> for a field written as \<open>show_int v\<close>.\<close>

definition stored :: "directive \<Rightarrow> int \<Rightarrow> 32 word" where
  "stored cv v =
     (if cv = Conv_d then word_of_int (strtol (v < 0) (nat \<bar>v\<bar>))
      else word_of_nat (strtoul (v < 0) (nat \<bar>v\<bar>)))"

subsection \<open>The C library: lines and strings in arrays\<close>

text \<open>
  \<open>fgets(s, n, fp)\<close> reads at most \<open>n - 1\<close> characters and stops after a newline;
  it gives the characters read and the stream left, or \<open>None\<close> (the null pointer)
  when the stream is at its end.
\<close>

definition fgets :: "nat \<Rightarrow> string \<Rightarrow> (string \<times> string) option" where
  "fgets n fp =
     (if fp = [] then None
      else
        (let t = take (n - 1) fp;
             chunk = take (Suc (length (takeWhile (\<lambda>c. c \<noteq> CHR 0x0A) t))) t
         in Some (chunk, drop (length chunk) fp)))"

text \<open>
  A \<open>char\<close> array is the list of its bytes.  \<open>store_string\<close> writes a string and
  its NUL at the start of an array; \<open>cstring arr p\<close> is the string that starts at index
  \<open>p\<close>, \<open>None\<close> when no NUL follows inside the array; \<open>strchr\<close> gives the
  index of the first occurrence of a character in the string at the start of the array.
\<close>

definition store_string :: "string \<Rightarrow> string \<Rightarrow> string" where
  "store_string arr s = s @ CHR 0x00 # drop (Suc (length s)) arr"

definition cstring :: "string \<Rightarrow> nat \<Rightarrow> string option" where
  "cstring arr p =
     (if CHR 0x00 \<in> set (drop p arr) then Some (takeWhile (\<lambda>c. c \<noteq> CHR 0x00) (drop p arr))
      else None)"

definition strchr :: "string \<Rightarrow> char \<Rightarrow> nat option" where
  "strchr arr c =
     (if c \<in> set (takeWhile (\<lambda>x. x \<noteq> CHR 0x00) arr)
      then Some (length (takeWhile (\<lambda>x. x \<noteq> c) arr))
      else None)"

subsection \<open>CPU information (lines 203--277)\<close>

text \<open>
  The local variables of \<open>GetCPUInfo\<close> that the two loops share.  All but
  \<open>numcpus\<close> are uninitialised at the start; their first values are part of the
  argument \<open>L0\<close> of \<open>GetCPUInfo\<close>.  \<open>line\<close> and \<open>model\<close> are arrays of
  512 characters.
\<close>

record cpu_locals =
  line :: string
  model :: string
  cpuspeed :: "32 word"
  numcpus :: nat
  ticks_user :: "64 word"
  ticks_nice :: "64 word"
  ticks_sys :: "64 word"
  ticks_idle :: "64 word"
  ticks_intr :: "64 word"

text \<open>
  \<open>Number::New\<close> takes a \<open>double\<close>.  An \<open>unsigned long long\<close> argument is
  converted to the nearest \<open>double\<close>, a tie going to the even significand of 53 bits;
  the result is a whole number and is given as such.  \<open>bit_length n\<close> is the number
  of binary digits of \<open>n\<close>.
\<close>

fun bit_length :: "nat \<Rightarrow> nat" where
  "bit_length n = (if n = 0 then 0 else Suc (bit_length (n div 2)))"

definition double_of_nat :: "nat \<Rightarrow> nat" where
  "double_of_nat n =
     (let e = bit_length n - 53; q = n div 2 ^ e; r = n mod 2 ^ e
      in if 2 ^ e < 2 * r \<or> (2 * r = 2 ^ e \<and> odd q) then (q + 1) * 2 ^ e else q * 2 ^ e)"

definition Number_New :: "64 word \<Rightarrow> nat" where
  "Number_New v = double_of_nat (unat v)"

text \<open>
  The objects stored in the result array.  A time is the number made of an
  \<open>unsigned long long\<close> product; the speed is an \<open>unsigned int\<close>, which every
  \<open>double\<close> holds exactly; a slot of the array that was never set is \<open>None\<close>.
\<close>

record cputimes =
  user :: nat
  nice :: nat
  sys :: nat
  idle :: nat
  irq :: nat

record cpuinfo =
  model_name :: string
  speed :: "32 word"
  times :: cputimes

text \<open>\<open>(*cpus)->Set(i, v)\<close>: an index past the end extends the array.\<close>

definition array_set :: "'a option list \<Rightarrow> nat \<Rightarrow> 'a \<Rightarrow> 'a option list" where
  "array_set arr i v =
     (if i < length arr then arr[i := Some v]
      else arr @ replicate (i - length arr) None @ [Some v])"

text \<open>
  \<open>sscanf(line, "%*s %*s : %u", &cpuspeed)\<close> and \<open>sscanf(line, "%u", &cpuspeed)\<close>:
  \<open>cpuspeed\<close> keeps its value when nothing is assigned.
\<close>

definition sscanf_cpuspeed :: "directive list \<Rightarrow> cpu_locals \<Rightarrow> cpu_locals" where
  "sscanf_cpuspeed fmt L =
     (case scanf fmt (takeWhile (\<lambda>c. c \<noteq> CHR 0x00) (line L)) [] of
        (args, e, rest) \<Rightarrow>
          (case args of [Arg_int v] \<Rightarrow> L\<lparr>cpuspeed := v\<rparr> | _ \<Rightarrow> L))"

text \<open>
  \<open>sscanf(line, "%*s %llu %llu %llu %llu %*llu %llu", &ticks_user, &ticks_nice,
  &ticks_sys, &ticks_idle, &ticks_intr)\<close>: the values converted before the call ends
  are assigned in this order, the other variables keep their values.
\<close>

fun assign_ticks :: "arg list \<Rightarrow> nat \<Rightarrow> cpu_locals \<Rightarrow> cpu_locals" where
  "assign_ticks [] k L = L"
| "assign_ticks (Arg_llu v # args) k L =
     assign_ticks args (Suc k)
       (if k = 0 then L\<lparr>ticks_user := v\<rparr>
        else if k = 1 then L\<lparr>ticks_nice := v\<rparr>
        else if k = 2 then L\<lparr>ticks_sys := v\<rparr>
        else if k = 3 then L\<lparr>ticks_idle := v\<rparr>
        else if k = 4 then L\<lparr>ticks_intr := v\<rparr>
        else L)"
| "assign_ticks (_ # args) k L = assign_ticks args (Suc k) L"

definition sscanf_ticks :: "cpu_locals \<Rightarrow> cpu_locals" where
  "sscanf_ticks L =
     (case scanf [Skip_s, Space, Conv_llu, Space, Conv_llu, Space, Conv_llu, Space, Conv_llu,
                  Space, Skip_llu, Space, Conv_llu]
             (takeWhile (\<lambda>c. c \<noteq> CHR 0x00) (line L)) [] of
        (args, e, rest) \<Rightarrow> assign_ticks args 0 L)"

text \<open>
  The loop over \<open>/proc/cpuinfo\<close> (lines 217--230).  For the first \<open>model name\<close>
  line the text after the colon and one more character is copied to \<open>model\<close> and its
  last character is cut off.
\<close>

function model_loop :: "string \<Rightarrow> cpu_locals \<Rightarrow> cpu_locals outcome" where
  "model_loop fpModel L =
     (case fgets 511 fpModel of
        None \<Rightarrow> Returned L
      | Some (chunk, rest) \<Rightarrow>
          (let L1 = L\<lparr>line := store_string (line L) chunk\<rparr> in
           if take 10 (line L1) = ''model name'' then
             (let L2 = L1\<lparr>numcpus := numcpus L1 + 1\<rparr> in
              if numcpus L2 = 1 then
                (case strchr (line L2) (CHR '':'') of
                   None \<Rightarrow> Undefined NullPointer
                 | Some k \<Rightarrow>
                     (case cstring (line L2) (k + 2) of
                        None \<Rightarrow> Undefined OutOfBounds
                      | Some p \<Rightarrow>
                          if p = [] then Undefined OutOfBounds
                          else model_loop rest
                                 (L2\<lparr>model := (store_string (model L2) p)
                                                  [length p - 1 := CHR 0x00]\<rparr>)))
              else model_loop rest L2)
           else if take 7 (line L1) = ''cpu MHz'' then
             (if numcpus L1 = 1
              then model_loop rest
                     (sscanf_cpuspeed
                        [Skip_s, Space, Skip_s, Space, Ordinary (CHR '':''), Space, Conv_u] L1)
              else model_loop rest L1)
           else model_loop rest L1))"
  by pat_completeness auto
termination
  by (relation "measure (\<lambda>(fpModel, L). length fpModel)")
     (auto simp: fgets_def Let_def split: if_splits)

text \<open>
  The body of the loop over \<open>/proc/stat\<close> for one \<open>cpu<N>\<close> line (lines 244--257):
  the counters are read, and the file \<open>cpuinfo_max_freq\<close> of core \<open>i\<close>, whose
  contents are \<open>cpufreq i\<close> when it can be opened, overrides \<open>cpuspeed\<close>.
\<close>

definition read_core :: "(nat \<Rightarrow> string option) \<Rightarrow> nat \<Rightarrow> cpu_locals \<Rightarrow> cpu_locals" where
  "read_core cpufreq i L =
     (let L2 = sscanf_ticks L in
      case cpufreq i of
        None \<Rightarrow> L2
      | Some fpSpeed \<Rightarrow>
          (case fgets 511 fpSpeed of
             None \<Rightarrow> L2
           | Some (chunk, rest) \<Rightarrow>
               (let L3 = sscanf_cpuspeed [Conv_u] (L2\<lparr>line := store_string (line L2) chunk\<rparr>)
                in L3\<lparr>cpuspeed := cpuspeed L3 div 1000\<rparr>)))"

text \<open>Lines 259--271: the object of one core, \<open>m\<close> being the string in \<open>model\<close>.\<close>

definition core_object :: "32 word \<Rightarrow> string \<Rightarrow> cpu_locals \<Rightarrow> cpuinfo" where
  "core_object multiplier m L =
     \<lparr>model_name = m, speed = cpuspeed L,
      times = \<lparr>user = Number_New (ticks_user L * ucast multiplier),
               nice = Number_New (ticks_nice L * ucast multiplier),
               sys = Number_New (ticks_sys L * ucast multiplier),
               idle = Number_New (ticks_idle L * ucast multiplier),
               irq = Number_New (ticks_intr L * ucast multiplier)\<rparr>\<rparr>"

text \<open>The loop over \<open>/proc/stat\<close> (lines 237--272).\<close>

function stat_loop ::
  "32 word \<Rightarrow> (nat \<Rightarrow> string option) \<Rightarrow> string \<Rightarrow> nat \<Rightarrow> cpu_locals \<Rightarrow> cpuinfo option list \<Rightarrow>
     cpuinfo option list outcome" where
  "stat_loop multiplier cpufreq fpStat i L cpus =
     (case fgets 511 fpStat of
        None \<Rightarrow> Returned cpus
      | Some (chunk, rest) \<Rightarrow>
          (let L1 = L\<lparr>line := store_string (line L) chunk\<rparr> in
           if take 4 (line L1) = ''cpu '' then stat_loop multiplier cpufreq rest i L1 cpus
           else if take 3 (line L1) \<noteq> ''cpu'' then Returned cpus
           else
             (let L2 = read_core cpufreq i L1 in
              case cstring (model L2) 0 of
                None \<Rightarrow> Undefined OutOfBounds
              | Some m \<Rightarrow>
                  stat_loop multiplier cpufreq rest (Suc i) L2
                    (array_set cpus i (core_object multiplier m L2)))))"
  by pat_completeness auto
termination
  by (relation "measure (\<lambda>(multiplier, cpufreq, fpStat, i, L, cpus). length fpStat)")
     (auto simp: fgets_def Let_def split: if_splits)

text \<open>
  \<open>GetCPUInfo\<close>.  \<open>sc_clk_tck\<close> is the \<open>long\<close> that \<open>sysconf(_SC_CLK_TCK)\<close>
  returns; \<open>proc_stat\<close> and \<open>proc_cpuinfo\<close> are the contents of the two files,
  \<open>None\<close> when \<open>fopen\<close> fails.  The result is the return value and the array.
\<close>

definition read_cpuinfo :: "string option \<Rightarrow> cpu_locals \<Rightarrow> cpu_locals outcome" where
  "read_cpuinfo proc_cpuinfo L =
     (case proc_cpuinfo of None \<Rightarrow> Returned L | Some fpModel \<Rightarrow> model_loop fpModel L)"

definition GetCPUInfo ::
  "int \<Rightarrow> string option \<Rightarrow> string option \<Rightarrow> (nat \<Rightarrow> string option) \<Rightarrow> cpu_locals \<Rightarrow>
     (int \<times> cpuinfo option list) outcome" where
  "GetCPUInfo sc_clk_tck proc_stat proc_cpuinfo cpufreq L0 =
     (let ticks = (word_of_int sc_clk_tck :: 32 word) in
      if ticks = 0 then Undefined DivisionByZero
      else
        (let multiplier = (word_of_nat (1000 div unat ticks) :: 32 word) in
         case read_cpuinfo proc_cpuinfo (L0\<lparr>numcpus := 0\<rparr>) of
           Undefined u \<Rightarrow> Undefined u
         | Returned L1 \<Rightarrow>
             (let cpus = replicate (numcpus L1) None in
              case proc_stat of
                None \<Rightarrow> Returned (0, cpus)
              | Some fpStat \<Rightarrow>
                  (case stat_loop multiplier cpufreq fpStat 0 L1 cpus of
                     Undefined u \<Rightarrow> Undefined u
                   | Returned cpus' \<Rightarrow> Returned (0, cpus')))))"

subsection \<open>The text of the counters source\<close>

text \<open>
  A line that \<open>fgets(line, 511, fp)\<close> reads whole: it ends with its only newline and
  has at most 510 characters.  \<open>cpu_line n cs\<close> is the line the kernel writes for core
  \<open>n\<close> with the counters \<open>cs\<close> (user, nice, system, idle, iowait, irq, ...).
\<close>

definition text_line :: "string \<Rightarrow> bool" where
  "text_line l =
     (l \<noteq> [] \<and> last l = CHR 0x0A \<and> CHR 0x0A \<notin> set (butlast l) \<and> length l \<le> 510)"

definition cpu_line :: "nat \<Rightarrow> nat list \<Rightarrow> string" where
  "cpu_line n cs = ''cpu'' @ dec n @ stat_fields (map int cs)"

text \<open>
  A core line as the kernel writes it has at least the six counters that the format
  reads, each an \<open>unsigned long long\<close>, and fits the line buffer.  \<open>ticks_ms m cs\<close>
  are the five counters that are reported (the fifth, iowait, is skipped), each
  multiplied by \<open>m\<close> as an \<open>unsigned long long\<close> and made a number.
\<close>

definition counters_ok :: "nat \<times> nat list \<Rightarrow> bool" where
  "counters_ok nc =
     (case nc of (n, cs) \<Rightarrow>
        6 \<le> length cs \<and> list_all (\<lambda>v. v < 2 ^ 64) (take 6 cs) \<and> length (cpu_line n cs) \<le> 510)"

definition ticks_ms :: "64 word \<Rightarrow> nat list \<Rightarrow> cputimes" where
  "ticks_ms m cs =
     \<lparr>user = Number_New (word_of_nat (cs ! 0) * m), nice = Number_New (word_of_nat (cs ! 1) * m),
      sys = Number_New (word_of_nat (cs ! 2) * m), idle = Number_New (word_of_nat (cs ! 3) * m),
      irq = Number_New (word_of_nat (cs ! 5) * m)\<rparr>"

subsection \<open>The text of the descriptor source\<close>



section \<open>Theorems\<close>

subsection \<open>Machine integers\<close>

text \<open>An \<open>int\<close> holds a natural number below \<open>2^31\<close> as it is.\<close>

lemma sint_word_of_nat:
  "n < 2 ^ 31 \<Longrightarrow> sint (word_of_nat n :: 32 word) = int n"
proof -
  assume n: "n < 2 ^ 31"
  have "sint (word_of_nat n :: 32 word) = sint (word_of_int (int n) :: 32 word)"
    by simp
  also have "\<dots> = (int n + 2 ^ 31) mod 2 ^ 32 - 2 ^ 31"
    unfolding int_word_sint by simp
  also have "(int n + 2 ^ 31) mod 2 ^ 32 = int n + 2 ^ 31"
    using n by (intro mod_pos_pos_trivial) auto
  finally show ?thesis by simp
qed

subsection \<open>Process title\<close>


lemma title_inv_initial: "title_inv initial_title_state"
  by (simp add: title_inv_def initial_title_state_def)

lemma title_inv_caller_state: "title_inv caller_state"
  by (simp add: title_inv_def caller_state_def)

lemma SetupArgs_result:
  assumes "title_inv st" and "blocks st a = Some s"
  shows "SetupArgs False (a # as) st =
           Returned (a # as, st\<lparr>blocks := (blocks st)(fresh st \<mapsto> s), fresh := Suc (fresh st),
                                process_title := Some (fresh st)\<rparr>)"
  using assms by (simp add: SetupArgs_def strdup_def)

lemma SetProcessTitle_result:
  assumes inv: "title_inv st" and live: "blocks st a = Some t"
    and other: "process_title st \<noteq> Some a"
  shows "SetProcessTitle True False (Some a) st =
           Returned (None, st\<lparr>blocks := (released st)(fresh st \<mapsto> t), fresh := Suc (fresh st),
                              process_title := Some (fresh st), pr_name := Some (fresh st)\<rparr>)"
proof (cases "process_title st")
  case None
  with live show ?thesis
    by (simp add: SetProcessTitle_def strdup_def released_def)
next
  case (Some old)
  with inv obtain s where b: "blocks st old = Some s"
    by (auto simp: title_inv_def)
  from Some other have "old \<noteq> a" by auto
  with Some b live show ?thesis
    by (simp add: SetProcessTitle_def free_def strdup_def released_def)
qed

lemma title_inv_SetProcessTitle:
  assumes inv: "title_inv st"
  shows "title_inv (st\<lparr>blocks := (released st)(fresh st \<mapsto> t), fresh := Suc (fresh st),
                        process_title := Some (fresh st), pr_name := Some (fresh st)\<rparr>)"
  using inv by (auto simp: title_inv_def released_def less_Suc_eq split: option.splits if_splits)

lemma GetProcessTitle_of_block:
  "process_title st = Some p \<Longrightarrow> blocks st p = Some s \<Longrightarrow>
     GetProcessTitle st = Returned (Some p, word_of_nat (length s))"
  by (simp add: GetProcessTitle_def)

text \<open>
  When \<open>strdup\<close> has no memory the old title is freed all the same and the slot is
  left null: \<open>GetProcessTitle\<close> then returns a null pointer and length 0.
\<close>

lemma SetProcessTitle_no_memory:
  assumes inv: "title_inv st" and live: "blocks st a = Some t"
    and other: "process_title st \<noteq> Some a"
  shows "SetProcessTitle True True (Some a) st =
           Returned (None, st\<lparr>blocks := released st, process_title := None, pr_name := None\<rparr>)"
    and "GetProcessTitle (st\<lparr>blocks := released st, process_title := None, pr_name := None\<rparr>) =
           Returned (None, 0)"
proof -
  show "SetProcessTitle True True (Some a) st =
           Returned (None, st\<lparr>blocks := released st, process_title := None, pr_name := None\<rparr>)"
  proof (cases "process_title st")
    case None
    with live show ?thesis
      by (simp add: SetProcessTitle_def strdup_def released_def)
  next
    case (Some old)
    with inv obtain s where b: "blocks st old = Some s"
      by (auto simp: title_inv_def)
    from Some other have "old \<noteq> a" by auto
    with Some b live show ?thesis
      by (simp add: SetProcessTitle_def free_def strdup_def released_def)
  qed
  show "GetProcessTitle (st\<lparr>blocks := released st, process_title := None, pr_name := None\<rparr>) =
           Returned (None, 0)"
    by (simp add: GetProcessTitle_def)
qed

text \<open>
  C9 at the failing input: the caller sets the title \<open>worker-1\<close>, takes the pointer
  that \<open>GetProcessTitle\<close> returns (address 2, length 8) and passes that pointer to
  \<open>SetProcessTitle\<close>.  The function frees the block first (line 76) and
  \<open>strdup\<close> then reads the freed block (line 77): the behaviour is undefined, and
  no title \<open>worker-1\<close> is stored.
\<close>

theorem SetProcessTitle_current_title_freed_before_copy:
  "SetProcessTitle True False (Some 0) caller_state =
     Returned (None, \<lparr>blocks = [0 \<mapsto> ''worker-1'', 1 \<mapsto> ''worker-2'', 2 \<mapsto> ''worker-1''],
                      fresh = 3, process_title = Some 2, pr_name = Some 2\<rparr>) \<and>
   GetProcessTitle \<lparr>blocks = [0 \<mapsto> ''worker-1'', 1 \<mapsto> ''worker-2'', 2 \<mapsto> ''worker-1''],
                    fresh = 3, process_title = Some 2, pr_name = Some 2\<rparr> =
     Returned (Some 2, 8) \<and>
   SetProcessTitle True False (Some 2)
     \<lparr>blocks = [0 \<mapsto> ''worker-1'', 1 \<mapsto> ''worker-2'', 2 \<mapsto> ''worker-1''],
      fresh = 3, process_title = Some 2, pr_name = Some 2\<rparr> = Undefined DanglingPointer"
  by (simp add: SetProcessTitle_def GetProcessTitle_def strdup_def free_def caller_state_def)

text \<open>
  With memory available, for titles in live blocks of the caller (not the block
  \<open>process_title\<close> points to): \<open>SetProcessTitle\<close> followed by
  \<open>GetProcessTitle\<close> returns a pointer to a copy of the title with \<open>strlen\<close> of it
  in \<open>*len\<close> (the exact length when it fits an \<open>int\<close>).  After a second call the
  title is the second string, the first copy is no longer allocated, and the heap is the
  one before the calls without the old title and with the one new copy.
\<close>

theorem SetProcessTitle_GetProcessTitle:
  assumes inv: "title_inv st"
    and live: "blocks st a = Some t" and other: "process_title st \<noteq> Some a"
    and live': "blocks st a' = Some t'" and other': "process_title st \<noteq> Some a'"
  shows "\<exists>p1 st1 p2 st2.
           SetProcessTitle True False (Some a) st = Returned (None, st1) \<and>
           GetProcessTitle st1 = Returned (Some p1, word_of_nat (length t)) \<and>
           blocks st1 p1 = Some t \<and>
           (length t < 2 ^ 31 \<longrightarrow> sint (word_of_nat (length t) :: 32 word) = int (length t)) \<and>
           SetProcessTitle True False (Some a') st1 = Returned (None, st2) \<and>
           GetProcessTitle st2 = Returned (Some p2, word_of_nat (length t')) \<and>
           blocks st2 p1 = None \<and> blocks st2 = (released st)(p2 \<mapsto> t') \<and> title_inv st2"
proof -
  define st1 where
    "st1 = st\<lparr>blocks := (released st)(fresh st \<mapsto> t), fresh := Suc (fresh st),
              process_title := Some (fresh st), pr_name := Some (fresh st)\<rparr>"
  define st2 where
    "st2 = st1\<lparr>blocks := (released st1)(fresh st1 \<mapsto> t'), fresh := Suc (fresh st1),
               process_title := Some (fresh st1), pr_name := Some (fresh st1)\<rparr>"
  have s1: "SetProcessTitle True False (Some a) st = Returned (None, st1)"
    unfolding st1_def by (rule SetProcessTitle_result [OF inv live other])
  have i1: "title_inv st1"
    unfolding st1_def by (rule title_inv_SetProcessTitle [OF inv])
  from inv live have lt: "a < fresh st" by (auto simp: title_inv_def)
  from inv live' have lt': "a' < fresh st" by (auto simp: title_inv_def)
  have live1: "blocks st1 a' = Some t'"
    using live' other' lt' by (auto simp: st1_def released_def split: option.splits)
  have other1: "process_title st1 \<noteq> Some a'"
    using lt' by (simp add: st1_def)
  have s2: "SetProcessTitle True False (Some a') st1 = Returned (None, st2)"
    unfolding st2_def by (rule SetProcessTitle_result [OF i1 live1 other1])
  have i2: "title_inv st2"
    unfolding st2_def by (rule title_inv_SetProcessTitle [OF i1])
  have g1: "GetProcessTitle st1 = Returned (Some (fresh st), word_of_nat (length t))"
    by (rule GetProcessTitle_of_block) (simp_all add: st1_def)
  have g2: "GetProcessTitle st2 = Returned (Some (fresh st1), word_of_nat (length t'))"
    by (rule GetProcessTitle_of_block) (simp_all add: st2_def)
  have b1: "blocks st1 (fresh st) = Some t"
    by (simp add: st1_def)
  have gone: "blocks st2 (fresh st) = None"
    by (simp add: st2_def st1_def released_def)
  have fresh_free: "blocks st (fresh st) = None"
    using inv by (cases "blocks st (fresh st)") (auto simp: title_inv_def)
  have heap: "blocks st2 = (released st)(fresh st1 \<mapsto> t')"
    using fresh_free
    by (auto simp: st2_def st1_def released_def fun_eq_iff split: option.splits)
  have len: "length t < 2 ^ 31 \<longrightarrow> sint (word_of_nat (length t) :: 32 word) = int (length t)"
    using sint_word_of_nat by blast
  from s1 g1 b1 len s2 g2 gone heap i2 show ?thesis by blast
qed

theorem SetProcessTitle_GetProcessTitle_witness:
  "title_inv caller_state \<and>
   blocks caller_state 0 = Some ''worker-1'' \<and> process_title caller_state \<noteq> Some 0 \<and>
   blocks caller_state 1 = Some ''worker-2'' \<and> process_title caller_state \<noteq> Some 1 \<and>
   (\<exists>st1 st2.
      SetProcessTitle True False (Some 0) caller_state = Returned (None, st1) \<and>
      GetProcessTitle st1 = Returned (Some 2, 8) \<and>
      blocks st1 2 = Some ''worker-1'' \<and>
      SetProcessTitle True False (Some 1) st1 = Returned (None, st2) \<and>
      GetProcessTitle st2 = Returned (Some 3, 8) \<and>
      blocks st2 = [0 \<mapsto> ''worker-1'', 1 \<mapsto> ''worker-2'', 3 \<mapsto> ''worker-2''])"
proof -
  have live: "blocks caller_state 0 = Some ''worker-1''"
    by (simp add: caller_state_def)
  have other: "process_title caller_state \<noteq> Some 0"
    by (simp add: caller_state_def)
  have live': "blocks caller_state 1 = Some ''worker-2''"
    by (simp add: caller_state_def)
  have other': "process_title caller_state \<noteq> Some 1"
    by (simp add: caller_state_def)
  from SetProcessTitle_GetProcessTitle [OF title_inv_caller_state live other live' other']
  obtain p1 st1 p2 st2 where
    s1: "SetProcessTitle True False (Some 0) caller_state = Returned (None, st1)" and
    g1: "GetProcessTitle st1 = Returned (Some p1, word_of_nat (length ''worker-1''))" and
    b1: "blocks st1 p1 = Some ''worker-1''" and
    s2: "SetProcessTitle True False (Some 1) st1 = Returned (None, st2)" and
    g2: "GetProcessTitle st2 = Returned (Some p2, word_of_nat (length ''worker-2''))" and
    b2: "blocks st2 = (released caller_state)(p2 \<mapsto> ''worker-2'')"
    by blast
  have st1: "st1 = \<lparr>blocks = [0 \<mapsto> ''worker-1'', 1 \<mapsto> ''worker-2'', 2 \<mapsto> ''worker-1''],
                    fresh = 3, process_title = Some 2, pr_name = Some 2\<rparr>"
    using s1 by (simp add: SetProcessTitle_def caller_state_def strdup_def)
  have p1: "p1 = 2"
    using g1 st1 by (simp add: GetProcessTitle_def)
  have st2: "process_title st2 = Some 3"
    using s2 unfolding st1 by (auto simp add: SetProcessTitle_def free_def strdup_def)
  have p2: "p2 = 3"
    using g2 st2 by (auto simp add: GetProcessTitle_def split: option.splits)
  have r: "released caller_state = [0 \<mapsto> ''worker-1'', 1 \<mapsto> ''worker-2'']"
    by (simp add: released_def caller_state_def)
  from s1 g1 b1 s2 g2 b2 p1 p2 r title_inv_caller_state live other live' other' show ?thesis
    by auto
qed

subsection \<open>Network interfaces\<close>

lemma map_of_ret_append:
  "map_of (ret_append n x ret) m =
     (if m = n then Some ((case map_of ret n of None \<Rightarrow> [] | Some a \<Rightarrow> a) @ [x])
      else map_of ret m)"
  by (induction n x ret rule: ret_append.induct) auto

lemma keys_ret_append:
  "map fst (ret_append n x ret) =
     (if n \<in> fst ` set ret then map fst ret else map fst ret @ [n])"
  by (induction n x ret rule: ret_append.induct) auto

lemma distinct_ret_append:
  "distinct (map fst ret) \<Longrightarrow> distinct (map fst (ret_append n x ret))"
  by (simp add: keys_ret_append)

lemma map_of_ifaddrs_loop:
  "map_of (ifaddrs_loop K ntop addrs ret) n =
     (let es = filter (\<lambda>e. spec_surfaced K e \<and> ifa_name e = n) addrs in
      if es = [] then map_of ret n
      else Some ((case map_of ret n of None \<Rightarrow> [] | Some a \<Rightarrow> a) @
                 map (\<lambda>e. address_object K ntop e (the (ifa_addr e))) es))"
proof (induction addrs arbitrary: ret)
  case Nil
  then show ?case by simp
next
  case (Cons ent addrs)
  show ?case
    by (cases "ifa_addr ent")
       (auto simp: Cons.IH spec_surfaced_def map_of_ret_append Let_def split: option.splits)
qed

lemma distinct_ifaddrs_loop:
  "distinct (map fst ret) \<Longrightarrow> distinct (map fst (ifaddrs_loop K ntop addrs ret))"
  by (induction addrs arbitrary: ret) (auto simp: distinct_ret_append split: option.splits)

lemma internal_address_object:
  "internal (address_object K ntop e sa) = (ifa_flags e AND IFF_LOOPBACK K \<noteq> 0)"
  by (simp add: address_object_def Let_def split: prod.splits)

text \<open>
  C8, as the code has it: in a build where \<open>ANDROID\<close> is not defined, for every list
  that \<open>getifaddrs\<close> delivers, \<open>GetInterfaceAddresses\<close> returns an object with one
  key per interface name that has a surfaced entry; the array under a name holds, in
  list order, the address objects of exactly the entries of that name whose interface is
  up and running, whose address record is not null and whose family is not the packet
  family; and the \<open>internal\<close> field of each address object is true if and only if
  the loopback flag is set in the flags of its own entry.
\<close>

theorem GetInterfaceAddresses_surfaces:
  "\<exists>obj. GetInterfaceAddresses False K ntop (Inr addrs) = JS_object obj \<and>
          distinct (map fst obj) \<and>
          (\<forall>n. map_of obj n =
             (let es = filter (\<lambda>e. spec_surfaced K e \<and> ifa_name e = n) addrs in
              if es = [] then None
              else Some (map (\<lambda>e. address_object K ntop e (the (ifa_addr e))) es))) \<and>
          (\<forall>e sa. internal (address_object K ntop e sa) = (ifa_flags e AND IFF_LOOPBACK K \<noteq> 0))"
proof -
  let ?obj = "ifaddrs_loop K ntop addrs []"
  have "GetInterfaceAddresses False K ntop (Inr addrs) = JS_object ?obj"
    by (simp add: GetInterfaceAddresses_def)
  moreover have "distinct (map fst ?obj)"
    by (rule distinct_ifaddrs_loop) simp
  moreover have "\<forall>n. map_of ?obj n =
             (let es = filter (\<lambda>e. spec_surfaced K e \<and> ifa_name e = n) addrs in
              if es = [] then None
              else Some (map (\<lambda>e. address_object K ntop e (the (ifa_addr e))) es))"
    by (simp add: map_of_ifaddrs_loop Let_def)
  ultimately show ?thesis
    using internal_address_object by blast
qed

theorem GetInterfaceAddresses_surfaces_witness:
  "\<exists>obj. GetInterfaceAddresses False linux_macros (\<lambda>af a. if af = 2 then ''v4'' else ''v6'')
      (Inr [\<lparr>ifa_name = ''lo'', ifa_flags = 0x49, ifa_addr = Some \<lparr>sa_family = 17, sa_data = []\<rparr>\<rparr>,
            \<lparr>ifa_name = ''eth0'', ifa_flags = 0x1043, ifa_addr = Some \<lparr>sa_family = 17, sa_data = []\<rparr>\<rparr>,
            \<lparr>ifa_name = ''eth1'', ifa_flags = 0x1002, ifa_addr = Some \<lparr>sa_family = 2, sa_data = [10, 0, 0, 9]\<rparr>\<rparr>,
            \<lparr>ifa_name = ''lo'', ifa_flags = 0x49, ifa_addr = Some \<lparr>sa_family = 2, sa_data = [127, 0, 0, 1]\<rparr>\<rparr>,
            \<lparr>ifa_name = ''eth0'', ifa_flags = 0x1043, ifa_addr = Some \<lparr>sa_family = 2, sa_data = [192, 0, 2, 1]\<rparr>\<rparr>,
            \<lparr>ifa_name = ''tun0'', ifa_flags = 0x10d1, ifa_addr = None\<rparr>,
            \<lparr>ifa_name = ''lo'', ifa_flags = 0x49, ifa_addr = Some \<lparr>sa_family = 10, sa_data = [0, 0, 0, 1]\<rparr>\<rparr>])
        = JS_object obj \<and>
      map_of obj ''lo'' = Some [\<lparr>address = ''v4'', family = ''IPv4'', internal = True\<rparr>,
                               \<lparr>address = ''v6'', family = ''IPv6'', internal = True\<rparr>] \<and>
      map_of obj ''eth0'' = Some [\<lparr>address = ''v4'', family = ''IPv4'', internal = False\<rparr>] \<and>
      map_of obj ''eth1'' = None \<and> map_of obj ''tun0'' = None"
proof -
  let ?ntop = "\<lambda>(af :: 16 word) (a :: 8 word list). if af = 2 then ''v4'' else ''v6''"
  let ?addrs = "[\<lparr>ifa_name = ''lo'', ifa_flags = 0x49, ifa_addr = Some \<lparr>sa_family = 17, sa_data = []\<rparr>\<rparr>,
            \<lparr>ifa_name = ''eth0'', ifa_flags = 0x1043, ifa_addr = Some \<lparr>sa_family = 17, sa_data = []\<rparr>\<rparr>,
            \<lparr>ifa_name = ''eth1'', ifa_flags = 0x1002, ifa_addr = Some \<lparr>sa_family = 2, sa_data = [10, 0, 0, 9]\<rparr>\<rparr>,
            \<lparr>ifa_name = ''lo'', ifa_flags = 0x49, ifa_addr = Some \<lparr>sa_family = 2, sa_data = [127, 0, 0, 1]\<rparr>\<rparr>,
            \<lparr>ifa_name = ''eth0'', ifa_flags = 0x1043, ifa_addr = Some \<lparr>sa_family = 2, sa_data = [192, 0, 2, 1]\<rparr>\<rparr>,
            \<lparr>ifa_name = ''tun0'', ifa_flags = 0x10d1, ifa_addr = None\<rparr>,
            \<lparr>ifa_name = ''lo'', ifa_flags = 0x49, ifa_addr = Some \<lparr>sa_family = 10, sa_data = [0, 0, 0, 1]\<rparr>\<rparr>]"
  from GetInterfaceAddresses_surfaces [of linux_macros ?ntop ?addrs]
  obtain obj where
    r: "GetInterfaceAddresses False linux_macros ?ntop (Inr ?addrs) = JS_object obj" and
    m: "\<And>n. map_of obj n =
             (let es = filter (\<lambda>e. spec_surfaced linux_macros e \<and> ifa_name e = n) ?addrs in
              if es = [] then None
              else Some (map (\<lambda>e. address_object linux_macros ?ntop e (the (ifa_addr e))) es))"
    by blast
  have "map_of obj ''lo'' = Some [\<lparr>address = ''v4'', family = ''IPv4'', internal = True\<rparr>,
                               \<lparr>address = ''v6'', family = ''IPv6'', internal = True\<rparr>]"
    unfolding m by (simp add: spec_surfaced_def linux_macros_def address_object_def)
  moreover have "map_of obj ''eth0'' = Some [\<lparr>address = ''v4'', family = ''IPv4'', internal = False\<rparr>]"
    unfolding m by (simp add: spec_surfaced_def linux_macros_def address_object_def)
  moreover have "map_of obj ''eth1'' = None"
    unfolding m by (simp add: spec_surfaced_def linux_macros_def)
  moreover have "map_of obj ''tun0'' = None"
    unfolding m by (simp add: spec_surfaced_def linux_macros_def)
  ultimately show ?thesis using r by blast
qed

text \<open>
  C8 as stated fails in a build with \<open>ANDROID\<close> defined: the entry below is up and
  running, has an IPv4 address record, and is not surfaced, because the function returns
  \<open>undefined\<close> before it looks at any list.
\<close>

theorem GetInterfaceAddresses_android_counterexample:
  "spec_surfaced linux_macros
     \<lparr>ifa_name = ''eth0'', ifa_flags = 0x1043,
      ifa_addr = Some \<lparr>sa_family = 2, sa_data = [192, 0, 2, 1]\<rparr>\<rparr> \<and>
   GetInterfaceAddresses True linux_macros (\<lambda>af a. ''192.0.2.1'')
     (Inr [\<lparr>ifa_name = ''eth0'', ifa_flags = 0x1043,
            ifa_addr = Some \<lparr>sa_family = 2, sa_data = [192, 0, 2, 1]\<rparr>\<rparr>]) = JS_undefined"
  by (simp add: spec_surfaced_def linux_macros_def GetInterfaceAddresses_def)

subsection \<open>Executable path\<close>

lemma GetExecutablePath_readlink_fails:
  "length buffer < 2 ^ LENGTH('s) - 1 \<Longrightarrow>
     GetExecutablePath None buffer (sz :: 's::len word) = Undefined OutOfBounds"
  by (simp add: GetExecutablePath_def readlink_def unsigned_minus_1_eq_mask
        mask_eq_exp_minus_1 Let_def)

lemma readlink_positive_int:
  assumes "0 < k" and "k < 2 ^ 31"
  shows "readlink (Some target) buffer k =
           (if min (length target) k \<le> length buffer
            then Returned (int (min (length target) k),
                           take (min (length target) k) target @
                           drop (min (length target) k) buffer)
            else Undefined OutOfBounds)"
  using assms(1) by (simp add: readlink_def Let_def sint_word_of_nat [OF assms(2)])

lemma bufsiz_of_size:
  fixes sz :: "'s::len word"
  assumes sz: "1 < sz" and int: "unat sz \<le> 2 ^ 31"
  shows "unat (sz - 1) = unat sz - 1" and "0 < unat sz - 1" and "unat sz - 1 < 2 ^ 31"
proof -
  have "sz \<noteq> 0" using sz by auto
  then show "unat (sz - 1) = unat sz - 1" by (simp add: unat_minus_one)
  show pos: "0 < unat sz - 1"
    using sz by (simp add: word_less_nat_alt)
  show "unat sz - 1 < 2 ^ 31" using int pos by simp
qed

lemma GetExecutablePath_empty_target:
  fixes sz :: "'s::len word"
  assumes sz: "1 < sz" and int: "unat sz \<le> 2 ^ 31"
  shows "GetExecutablePath (Some []) buffer sz = Returned (- 1, buffer, 0)"
  unfolding GetExecutablePath_def bufsiz_of_size(1) [OF sz int]
    readlink_positive_int [OF bufsiz_of_size(2,3) [OF sz int]]
  by simp

lemma GetExecutablePath_success:
  fixes sz :: "'s::len word"
  assumes t: "target \<noteq> []" and sz: "1 < sz" and int: "unat sz \<le> 2 ^ 31"
    and cap: "unat sz \<le> length buffer"
  defines "n \<equiv> min (length target) (unat sz - 1)"
  shows "GetExecutablePath (Some target) buffer sz =
           Returned (0, take n target @ CHR 0x00 # drop (Suc n) buffer, word_of_nat n)"
proof -
  note u = bufsiz_of_size(1) [OF sz int] and pos = bufsiz_of_size(2) [OF sz int]
    and b = bufsiz_of_size(3) [OF sz int]
  define k where "k = unat sz - 1"
  have n0: "0 < n" using t pos by (simp add: n_def)
  have nlt: "n < unat sz" using pos by (simp add: n_def)
  have nsz: "n < 2 ^ LENGTH('s)"
    using nlt unsigned_less [of sz, where 'a=nat] by (meson less_trans)
  have un: "unat (word_of_nat n :: 's word) = n"
    using nsz by (simp add: unat_of_nat)
  have nz: "(word_of_nat n :: 's word) \<noteq> 0"
    using un n0 by (metis less_numeral_extra(3) unat_0)
  have nb: "n < length buffer" using nlt cap by simp
  have upd: "(take n target @ drop n buffer)[n := CHR 0x00] =
               take n target @ CHR 0x00 # drop (Suc n) buffer"
  proof -
    have l: "length (take n target) = n" by (simp add: n_def)
    have "drop n buffer = buffer ! n # drop (Suc n) buffer"
      using nb by (simp add: Cons_nth_drop_Suc)
    then show ?thesis using l by (simp add: list_update_append)
  qed
  have m: "min (length target) k = n"
    by (simp add: n_def k_def)
  have "readlink (Some target) buffer k = Returned (int n, take n target @ drop n buffer)"
    using pos b nb unfolding k_def [symmetric]
    by (simp add: readlink_positive_int m del: min_less_iff_conj)
  then have rl: "readlink (Some target) buffer (unat (sz - 1)) =
              Returned (int n, take n target @ drop n buffer)"
    by (simp add: u k_def)
  have len: "length (take n target @ drop n buffer) = length buffer"
    using nb by (simp add: n_def)
  show ?thesis
    unfolding GetExecutablePath_def rl using nz nb un upd len
    by (simp add: Let_def word_le_0_iff del: length_append length_take length_drop)
qed

text \<open>
  C4 at the failing input: \<open>readlink\<close> fails, the caller's buffer has 4096 bytes and
  \<open>*size\<close> is 4096 on a target with a 64-bit \<open>size_t\<close>.  The function does not
  return \<open>-1\<close>: the \<open>-1\<close> of \<open>readlink\<close> becomes the largest \<open>size_t\<close>, the
  test \<open>*size <= 0\<close> is false, and the NUL is written at that index, outside the
  buffer.
\<close>

theorem GetExecutablePath_readlink_failure_not_reported:
  "GetExecutablePath None (replicate 4096 (CHR 0x00)) (4096 :: 64 word) = Undefined OutOfBounds"
  by (rule GetExecutablePath_readlink_fails) simp

text \<open>
  Where the link resolves and the caller's \<open>*size\<close> is at least 2, at most the
  capacity of the buffer and at most \<open>2^31\<close> (so that \<open>*size - 1\<close> is a positive
  \<open>int\<close>): an empty target gives \<open>-1\<close>; otherwise the function
  returns 0, the buffer holds the first \<open>*size - 1\<close> bytes of the target followed
  by a NUL, and \<open>*size\<close> is their number.
\<close>

theorem GetExecutablePath_resolved:
  fixes sz :: "'s::len word"
  assumes "1 < sz" and "unat sz \<le> 2 ^ 31" and "unat sz \<le> length buffer"
  shows "GetExecutablePath (Some target) buffer sz =
           (if target = [] then Returned (- 1, buffer, 0)
            else Returned (0, take (min (length target) (unat sz - 1)) target @ CHR 0x00 #
                               drop (Suc (min (length target) (unat sz - 1))) buffer,
                           word_of_nat (min (length target) (unat sz - 1))))"
proof (cases "target = []")
  case True
  with GetExecutablePath_empty_target [OF assms(1,2)] show ?thesis by simp
next
  case False
  with GetExecutablePath_success [OF False assms] show ?thesis by simp
qed

theorem GetExecutablePath_resolved_witness:
  "(1 :: 64 word) < 16 \<and> unat (16 :: 64 word) \<le> 2 ^ 31 \<and>
   unat (16 :: 64 word) \<le> length (replicate 16 (CHR ''x'')) \<and>
   GetExecutablePath (Some ''/usr/bin/node'') (replicate 16 (CHR ''x'')) (16 :: 64 word) =
     Returned (0, ''/usr/bin/node'' @ [CHR 0x00, CHR ''x'', CHR ''x''], 13)"
proof -
  have a: "(1 :: 64 word) < 16" by simp
  have i: "unat (16 :: 64 word) \<le> 2 ^ 31" by simp
  have b: "unat (16 :: 64 word) \<le> length (replicate 16 (CHR ''x''))" by simp
  have d: "drop 14 (replicate 16 (CHR ''x'')) = [CHR ''x'', CHR ''x'']"
    by (simp add: replicate_Suc [symmetric] del: replicate_Suc) (simp add: numeral_2_eq_2)
  from GetExecutablePath_resolved [OF a i b, of "''/usr/bin/node''"] a i b d
  show ?thesis by simp
qed

subsection \<open>Memory usage\<close>

declare exe_loop.simps [simp del]

lemma scanf_c_Cons: "scanf [Conv_c] (c # f) [] = ([Arg_char c], Format_done, f)"
  by simp

lemma scanf_c_Nil: "scanf [Conv_c] [] [] = ([], Input_failure, [])"
  by simp

lemma exe_loop_Cons:
  "cbuf < length buf \<Longrightarrow>
   exe_loop (c # f) buf cbuf found =
     (if c = CHR '')'' then exe_loop f (buf[cbuf := c]) (Suc cbuf) True
      else if found \<and> c = CHR '' '' then Returned (Some (f, buf[cbuf := CHR 0x00]))
      else exe_loop f (buf[cbuf := c]) (Suc cbuf) found)"
  by (subst exe_loop.simps) (simp add: scanf_return_def Let_def)

lemma exe_loop_Nil:
  "cbuf < length buf \<Longrightarrow>
   exe_loop [] buf cbuf found =
     (if buf ! cbuf = CHR '')'' then exe_loop [] buf (Suc cbuf) True
      else if found \<and> buf ! cbuf = CHR '' '' then Returned (Some ([], buf[cbuf := CHR 0x00]))
      else exe_loop [] buf (Suc cbuf) found)"
  by (subst exe_loop.simps) (simp add: scanf_return_def Let_def)

lemma exe_loop_overrun:
  "length buf \<le> cbuf \<Longrightarrow> exe_loop f buf cbuf found = Undefined OutOfBounds"
  by (subst exe_loop.simps) simp

lemma exe_loop_name:
  assumes "if found then CHR '' '' \<notin> set name else \<not> space_after_paren name"
    and "length name + 2 \<le> length old"
  shows "exe_loop (name @ '') '' @ rest) (pre @ old) (length pre) found =
           Returned (Some (rest, pre @ name @ '')'' @ CHR 0x00 # drop (length name + 2) old))"
  using assms
proof (induction name arbitrary: pre old found)
  case Nil
  then obtain a b old' where old: "old = a # b # old'"
    by (cases old; cases "tl old") auto
  show ?case
    by (simp add: old exe_loop_Cons [where buf="pre @ a # b # old'" and cbuf="length pre"]
           exe_loop_Cons [where buf="pre @ CHR '')'' # b # old'" and cbuf="Suc (length pre)"]
           list_update_append)
next
  case (Cons c name)
  then obtain a old' where old: "old = a # old'" and len: "length name + 2 \<le> length old'"
    by (cases old) auto
  have step: "(pre @ a # old')[length pre := c] = (pre @ [c]) @ old'"
    by (simp add: list_update_append)
  have l: "Suc (length pre) = length (pre @ [c])" by simp
  show ?case
  proof (cases "c = CHR '')''")
    case True
    with Cons.prems have ok: "if True then CHR '' '' \<notin> set name else \<not> space_after_paren name"
      by (auto simp: space_after_paren_def split: if_splits)
    show ?thesis
      using True Cons.IH [OF ok len, of "pre @ [c]"]
      by (simp add: old exe_loop_Cons [where buf="pre @ a # old'" and cbuf="length pre"]
            list_update_append)
  next
    case False
    with Cons.prems have ok: "if found then CHR '' '' \<notin> set name else \<not> space_after_paren name"
      and nb: "\<not> (found \<and> c = CHR '' '')"
      by (auto simp: space_after_paren_def split: if_splits)
    show ?thesis
      using False nb Cons.IH [OF ok len, of "pre @ [c]"]
      by (simp add: old exe_loop_Cons [where buf="pre @ a # old'" and cbuf="length pre"]
            list_update_append)
  qed
qed

lemma scan_exe_name:
  assumes "\<not> space_after_paren name" and "length name + 3 \<le> length buf"
  shows "scan_exe (''('' @ name @ '') '' @ rest) buf =
           Returned (Some (rest, ''('' @ name @ '')'' @ CHR 0x00 # drop (length name + 3) buf))"
proof -
  from assms(2) obtain a old where buf: "buf = a # old" and len: "length name + 2 \<le> length old"
    by (cases buf) auto
  have ok: "if False then CHR '' '' \<notin> set name else \<not> space_after_paren name"
    using assms(1) by simp
  have "length name + 3 = Suc (length name + 2)" by simp
  then have d: "drop (length name + 3) (a # old) = drop (length name + 2) old"
    by (simp only: drop_Suc_Cons)
  from exe_loop_name [OF ok len, of rest "''(''"]
  show ?thesis
    unfolding buf d by (simp add: scan_exe_def scanf_return_def)
qed

lemma exe_loop_eof_overrun:
  "CHR '' '' \<notin> set (drop cbuf buf) \<Longrightarrow> exe_loop [] buf cbuf found = Undefined OutOfBounds"
proof (induction "length buf - cbuf" arbitrary: cbuf found)
  case 0
  then show ?case by (simp add: exe_loop_overrun)
next
  case (Suc n)
  then have lt: "cbuf < length buf" and n: "n = length buf - Suc cbuf" by auto
  have d: "drop cbuf buf = buf ! cbuf # drop (Suc cbuf) buf"
    using lt by (simp add: Cons_nth_drop_Suc)
  with Suc.prems have ns: "buf ! cbuf \<noteq> CHR '' ''" and rest: "CHR '' '' \<notin> set (drop (Suc cbuf) buf)"
    by auto
  show ?case
    using ns Suc.hyps(1) [OF n rest] by (simp add: exe_loop_Nil [OF lt])
qed

lemma exe_loop_truncated_name:
  assumes "CHR '')'' \<notin> set name" and "CHR '' '' \<notin> set old" and "length name \<le> length old"
  shows "exe_loop name (pre @ old) (length pre) False = Undefined OutOfBounds"
  using assms
proof (induction name arbitrary: pre old)
  case Nil
  then show ?case by (simp add: exe_loop_eof_overrun)
next
  case (Cons c name)
  then obtain a old' where old: "old = a # old'" by (cases old) auto
  have "exe_loop name ((pre @ [c]) @ old') (length (pre @ [c])) False = Undefined OutOfBounds"
    using Cons.prems old by (intro Cons.IH) auto
  moreover have "c \<noteq> CHR '')''"
    using Cons.prems(1) by auto
  ultimately show ?case
    by (simp add: old exe_loop_Cons [where buf="pre @ a # old'" and cbuf="length pre"]
          list_update_append)
qed

subsection \<open>Decimal fields\<close>

declare dec.simps [simp del]

lemma digit_cases: "d < 10 \<Longrightarrow> d \<in> {0, 1, 2, 3, 4, 5, 6, 7, 8, 9 :: nat}"
  by auto

lemma isdigit_digit_char: "d < 10 \<Longrightarrow> isdigit (digit_char d)"
  by (drule digit_cases) (auto simp: digit_char_def isdigit_def)

lemma val_digit_char: "d < 10 \<Longrightarrow> of_char (digit_char d) - 48 = d"
  by (drule digit_cases) (auto simp: digit_char_def)

lemma isdigit_not_space: "isdigit c \<Longrightarrow> \<not> isspace c"
  by (auto simp: isdigit_def isspace_def)

lemma isdigit_not_sign: "isdigit c \<Longrightarrow> c \<noteq> CHR ''-'' \<and> c \<noteq> CHR ''+''"
  by (auto simp: isdigit_def)

lemma dec_digits: "c \<in> set (dec n) \<Longrightarrow> isdigit c"
proof (induction n arbitrary: c rule: dec.induct)
  case (1 n)
  show ?case
  proof (cases "n < 10")
    case True
    with "1.prems" show ?thesis by (simp add: dec.simps [of n] isdigit_digit_char)
  next
    case False
    with "1.prems" have "c \<in> set (dec (n div 10)) \<or> c = digit_char (n mod 10)"
      by (auto simp add: dec.simps [of n])
    then show ?thesis
      using "1.IH" [OF False] by (auto simp: isdigit_digit_char)
  qed
qed

lemma dec_not_Nil: "dec n \<noteq> []"
  by (subst dec.simps) simp

lemma digits_val_snoc: "digits_val (ds @ [c]) = 10 * digits_val ds + (of_char c - 48)"
  by (simp add: digits_val_def)

lemma digits_val_dec: "digits_val (dec n) = n"
proof (induction n rule: dec.induct)
  case (1 n)
  show ?case
  proof (cases "n < 10")
    case True
    then show ?thesis by (simp add: dec.simps [of n] digits_val_def val_digit_char)
  next
    case False
    then show ?thesis
      using "1.IH" [OF False]
      by (simp add: dec.simps [of n] digits_val_snoc val_digit_char)
  qed
qed

lemma takeWhile_dec:
  "r = [] \<or> \<not> isdigit (hd r) \<Longrightarrow> takeWhile isdigit (dec n @ r) = dec n"
  by (cases r) (auto simp: takeWhile_append dec_digits takeWhile_eq_all_conv)

lemma dropWhile_dec:
  "r = [] \<or> \<not> isdigit (hd r) \<Longrightarrow> dropWhile isdigit (dec n @ r) = r"
  by (cases r) (auto simp: dropWhile_append dec_digits dropWhile_eq_Nil_conv)

lemma scan_number_show_int:
  assumes "r = [] \<or> \<not> isdigit (hd r)"
  shows "scan_number (show_int v @ r) = Num (v < 0) (nat \<bar>v\<bar>) r"
proof (cases "v < 0")
  case True
  then show ?thesis
    using assms
    by (simp add: show_int_def scan_number_def isspace_def takeWhile_dec dropWhile_dec
          dec_not_Nil digits_val_dec)
next
  case False
  obtain c cs where d: "dec (nat v) = c # cs"
    using dec_not_Nil [of "nat v"] by (cases "dec (nat v)") auto
  have c: "isdigit c" using dec_digits [of c "nat v"] d by simp
  have tw: "takeWhile isdigit (cs @ r) = cs"
    using takeWhile_dec [OF assms, of "nat v"] d c by simp
  have dw: "dropWhile isdigit (cs @ r) = r"
    using dropWhile_dec [OF assms, of "nat v"] d c by simp
  have dv: "digits_val (c # cs) = nat v"
    using digits_val_dec [of "nat v"] d by simp
  have ns: "\<not> isspace c" using c by (rule isdigit_not_space)
  show ?thesis
    using False isdigit_not_sign [OF c] ns c
    by (simp add: show_int_def scan_number_def d tw dw dv Let_def)
qed

lemma show_int_head: "\<exists>c cs. show_int v = c # cs \<and> \<not> isspace c"
proof (cases "v < 0")
  case True
  then show ?thesis by (simp add: show_int_def isspace_def)
next
  case False
  obtain c cs where d: "dec (nat v) = c # cs"
    using dec_not_Nil [of "nat v"] by (cases "dec (nat v)") auto
  have "isdigit c" using dec_digits [of c "nat v"] d by simp
  then show ?thesis using False d by (simp add: show_int_def isdigit_not_space)
qed

lemma stat_fields_not_digit: "stat_fields fs = [] \<or> \<not> isdigit (hd (stat_fields fs))"
  by (cases fs) (simp_all add: stat_fields_def isdigit_def)

lemma dropWhile_stat_fields_Nil: "dropWhile isspace (stat_fields []) = []"
  by (simp add: stat_fields_def isspace_def)

lemma dropWhile_stat_fields_Cons:
  "dropWhile isspace (stat_fields (v # fs)) = show_int v @ stat_fields fs"
proof -
  obtain c cs where "show_int v = c # cs" and "\<not> isspace c"
    using show_int_head by blast
  then show ?thesis by (simp add: stat_fields_def isspace_def)
qed

lemma fscanf_itmp_field:
  assumes "cv = Conv_d \<or> cv = Conv_u"
  shows "fscanf_itmp cv (show_int v @ stat_fields fs, itmp) =
           Some (dropWhile isspace (stat_fields fs), stored cv v)"
  using assms scan_number_show_int [OF stat_fields_not_digit, of v fs]
  by (auto simp: fscanf_itmp_def scanf_return_def stored_def)

lemma fscanf_fields_record:
  assumes "set cvs \<subseteq> {Conv_d, Conv_u}" and "length cvs \<le> length fs"
  shows "fscanf_fields cvs (dropWhile isspace (stat_fields fs), itmp) =
           Some (dropWhile isspace (stat_fields (drop (length cvs) fs)),
                 if cvs = [] then itmp else stored (last cvs) (fs ! (length cvs - 1)))"
  using assms
proof (induction cvs arbitrary: fs itmp)
  case Nil
  then show ?case by simp
next
  case (Cons cv cvs)
  then obtain v fs' where fs: "fs = v # fs'" by (cases fs) auto
  have cv: "cv = Conv_d \<or> cv = Conv_u" using Cons.prems(1) by auto
  have ih: "fscanf_fields cvs (dropWhile isspace (stat_fields fs'), stored cv v) =
           Some (dropWhile isspace (stat_fields (drop (length cvs) fs')),
                 if cvs = [] then stored cv v else stored (last cvs) (fs' ! (length cvs - 1)))"
    using Cons.prems fs by (intro Cons.IH) auto
  have step: "fscanf_fields (cv # cvs) (dropWhile isspace (stat_fields fs), itmp) =
          fscanf_fields cvs (dropWhile isspace (stat_fields fs'), stored cv v)"
    by (simp add: fs dropWhile_stat_fields_Cons fscanf_itmp_field [OF cv])
  show ?case
  proof (cases "cvs = []")
    case True
    then show ?thesis unfolding step ih by (simp add: fs)
  next
    case False
    then have "length cvs - 1 < length cvs" by (cases cvs) auto
    with False show ?thesis unfolding step ih by (simp add: fs)
  qed
qed

lemma fscanf_itmp_pid:
  "fscanf_itmp Conv_d (show_int pid @ '' ('' @ r, itmp) = Some (CHR ''('' # r, stored Conv_d pid)"
proof -
  have "scan_number (show_int pid @ ('' ('' @ r)) = Num (pid < 0) (nat \<bar>pid\<bar>) ('' ('' @ r)"
    by (rule scan_number_show_int) (simp add: isdigit_def)
  then show ?thesis
    by (simp add: fscanf_itmp_def scanf_return_def stored_def isspace_def)
qed

lemma drop_stat_field:
  "n < length fs \<Longrightarrow>
     dropWhile isspace (stat_fields (drop n fs)) = show_int (fs ! n) @ stat_fields (drop (Suc n) fs)"
  by (simp add: Cons_nth_drop_Suc [symmetric] dropWhile_stat_fields_Cons)

lemma fields_4_to_22_facts:
  "length fields_4_to_22 = 19" "last fields_4_to_22 = Conv_d" "fields_4_to_22 \<noteq> []"
  "set fields_4_to_22 \<subseteq> {Conv_d, Conv_u}"
  by (simp_all add: fields_4_to_22_def)

lemma fields_25_to_28_facts:
  "length fields_25_to_28 = 4" "last fields_25_to_28 = Conv_u" "fields_25_to_28 \<noteq> []"
  "set fields_25_to_28 \<subseteq> {Conv_d, Conv_u}"
  by (simp_all add: fields_25_to_28_def)

lemma GetMemory_valid_record:
  assumes len: "25 \<le> length fs" and name: "\<not> space_after_paren name"
    and fits: "length name + 3 \<le> length buf"
  shows "GetMemory page_size itmp0 (Some (stat_record pid name state fs)) buf rss vsize =
           Returned (0, scast (stored Conv_u (fs ! 20)) * page_size, scast (stored Conv_u (fs ! 19)),
                     ''('' @ name @ '')'' @ CHR 0x00 # drop (length name + 3) buf)"
proof -
  let ?S = "\<lambda>n. dropWhile isspace (stat_fields (drop n fs))"
  have pid: "fscanf_itmp Conv_d (stat_record pid name state fs, itmp0) =
               Some (''('' @ name @ '') '' @ state # stat_fields fs, stored Conv_d pid)"
    using fscanf_itmp_pid [of pid "name @ '') '' @ state # stat_fields fs" itmp0]
    by (simp add: stat_record_def)
  have exe: "scan_exe (''('' @ name @ '') '' @ state # stat_fields fs) buf =
               Returned (Some (state # stat_fields fs,
                  ''('' @ name @ '')'' @ CHR 0x00 # drop (length name + 3) buf))"
    by (rule scan_exe_name [OF name fits])
  have st: "scanf [Conv_c, Space] (state # stat_fields fs) [] =
              ([Arg_char state], Format_done, ?S 0)"
    by simp
  have f22: "fscanf_fields fields_4_to_22 (?S 0, stored Conv_d pid) =
               Some (?S 19, stored Conv_d (fs ! 18))"
    using fscanf_fields_record [of fields_4_to_22 fs "stored Conv_d pid"] len
    by (simp add: fields_4_to_22_facts)
  have f23: "fscanf_itmp Conv_u (?S 19, stored Conv_d (fs ! 18)) = Some (?S 20, stored Conv_u (fs ! 19))"
    using len by (simp add: drop_stat_field fscanf_itmp_field)
  have f24: "fscanf_itmp Conv_u (?S 20, stored Conv_u (fs ! 19)) = Some (?S 21, stored Conv_u (fs ! 20))"
    using len by (simp add: drop_stat_field fscanf_itmp_field)
  have f28: "fscanf_fields fields_25_to_28 (?S 21, stored Conv_u (fs ! 20)) =
               Some (?S 25, stored Conv_u (fs ! 24))"
    using fscanf_fields_record [of fields_25_to_28 "drop 21 fs" "stored Conv_u (fs ! 20)"] len
    by (simp add: fields_25_to_28_facts add.commute)
  show ?thesis
    unfolding GetMemory_def
    by (simp only: pid exe st f22 f23 f24 f28 option.case prod.case outcome.case Let_def
          scanf_return_def) simp
qed

subsection \<open>\<open>GetMemory\<close> on concrete and on well-formed records\<close>

lemma stored_u_in_range:
  assumes "0 \<le> v" and "v < 2 ^ 31"
  shows "(scast (stored Conv_u v) :: 's::len word) = word_of_int v"
proof -
  have n: "nat v < 2 ^ 31" using assms by (simp add: nat_less_iff)
  have s: "stored Conv_u v = word_of_nat (nat v)"
    using assms n by (simp add: stored_def strtoul_def)
  have "sint (word_of_nat (nat v) :: 32 word) = v"
    using sint_word_of_nat [OF n] assms by simp
  then show ?thesis
    unfolding s scast_eq by simp
qed

lemmas scan_eval = fscanf_itmp_def scan_number_def isspace_def isdigit_def digits_val_def
  strtol_def strtoul_def scanf_return_def fields_4_to_22_def fields_25_to_28_def

lemmas record_eval = stat_record_def stat_fields_def show_int_def dec.simps digit_char_def

lemma scan_exe_zero_buf:
  assumes "\<not> space_after_paren name" and "length name + 3 \<le> 4097"
  shows "scan_exe (''('' @ name @ '') '' @ rest) (replicate 4097 (CHR 0x00)) =
           Returned (Some (rest, ''('' @ name @ '')'' @ replicate (4095 - length name) (CHR 0x00)))"
proof -
  have "CHR 0x00 # drop (length name + 3) (replicate 4097 (CHR 0x00)) =
          replicate (Suc (4097 - (length name + 3))) (CHR 0x00)"
    by simp
  also have "Suc (4097 - (length name + 3)) = 4095 - length name"
    using assms(2) by simp
  finally show ?thesis
    using scan_exe_name [OF assms(1), of "replicate 4097 (CHR 0x00)" rest] assms(2)
    by simp
qed

lemma zero_buf_Suc: "replicate 4097 c = c # replicate 4096 c"
  by (simp add: replicate_Suc [symmetric] del: replicate_Suc)

text \<open>
  C1 at two failing inputs, with \<open>buf\<close> as it is at program start (4097 zero bytes,
  \<open>MAXPATHLEN\<close> being 4096).  A record cut after its sixth field is not rejected:
  every later \<open>fscanf\<close> returns \<open>EOF\<close>, which the tests \<open>== 0\<close> let pass, and
  the function returns 0 with the stale \<open>itmp\<close> as both sizes.  A record cut inside
  the executable name makes the loop run to the end of \<open>buf\<close> and beyond.
\<close>

theorem GetMemory_short_record:
  "GetMemory page_size itmp0 (Some ''1234 (node) S 1 2 3'') (replicate 4097 (CHR 0x00)) rss vsize =
     Returned (0, 3 * page_size, 3, ''(node)'' @ replicate 4091 (CHR 0x00)) \<and>
   GetMemory page_size itmp0 (Some ''1234 (node'') (replicate 4097 (CHR 0x00)) rss vsize =
     Undefined OutOfBounds"
proof
  have e: "scan_exe (''('' @ ''node'' @ '') '' @ ''S 1 2 3'') (replicate 4097 (CHR 0x00)) =
      Returned (Some (''S 1 2 3'',
        ''('' @ ''node'' @ '')'' @ replicate (4095 - length ''node'') (CHR 0x00)))"
    by (rule scan_exe_zero_buf) (simp_all add: space_after_paren_def)
  show "GetMemory page_size itmp0 (Some ''1234 (node) S 1 2 3'') (replicate 4097 (CHR 0x00))
          rss vsize =
        Returned (0, 3 * page_size, 3, ''(node)'' @ replicate 4091 (CHR 0x00))"
    unfolding GetMemory_def
    using e by (simp add: scan_eval del: replicate_Suc)
next
  have l: "exe_loop ''node'' (''('' @ replicate 4096 (CHR 0x00)) (length ''('') False =
             Undefined OutOfBounds"
    by (rule exe_loop_truncated_name) simp_all
  have e: "scan_exe ''(node'' (replicate 4097 (CHR 0x00)) = Undefined OutOfBounds"
    using l by (simp add: scan_exe_def scanf_return_def zero_buf_Suc)
  show "GetMemory page_size itmp0 (Some ''1234 (node'') (replicate 4097 (CHR 0x00)) rss vsize =
          Undefined OutOfBounds"
    unfolding GetMemory_def
    by (simp add: scan_eval e)
qed

text \<open>
  For every executable name with no space after a closing parenthesis (and short enough
  for \<open>buf\<close>), the scanner ends the name at its trailing \<open>)\<close>: \<open>buf\<close> then
  holds the name between its parentheses, NUL-terminated, and the stream stands at the
  state field; on a whole record with such a name and at least 28 fields \<open>GetMemory\<close>
  returns 0 with what fields 23 and 24 hold.
\<close>

theorem scan_exe_ends_at_trailing_paren:
  assumes "\<not> space_after_paren name" and "length name + 3 \<le> length buf"
    and "25 \<le> length fs"
  shows "scan_exe (''('' @ name @ '') '' @ rest) buf =
           Returned (Some (rest, ''('' @ name @ '')'' @ CHR 0x00 # drop (length name + 3) buf)) \<and>
         GetMemory page_size itmp0 (Some (stat_record pid name state fs)) buf rss vsize =
           Returned (0, scast (stored Conv_u (fs ! 20)) * page_size,
                     scast (stored Conv_u (fs ! 19)),
                     ''('' @ name @ '')'' @ CHR 0x00 # drop (length name + 3) buf)"
  using scan_exe_name [OF assms(1,2)] GetMemory_valid_record [OF assms(3,1,2)]
  by simp

theorem scan_exe_ends_at_trailing_paren_witness:
  "\<not> space_after_paren ''my(app)'' \<and>
   scan_exe ''(my(app)) S 1'' (replicate 4097 (CHR 0x00)) =
     Returned (Some (''S 1'', ''(my(app))'' @ replicate 4088 (CHR 0x00))) \<and>
   GetMemory (4096 :: 64 word) 0
     (Some (''1234 (my(app)) S 1 1234 1234 34816 1234 4202496 1000 0 0 0 5 3 0 0 20 0 6 0 123456 700000000 10000 18446744073709551615 4194304 4196300 140730000000000 0 0 0'' @ [CHR 0x0A]))
     (replicate 4097 (CHR 0x00)) 0 0 =
     Returned (0, 40960000, 700000000, ''(my(app))'' @ replicate 4088 (CHR 0x00))"
proof -
  let ?fs = "[1, 1234, 1234, 34816, 1234, 4202496, 1000, 0, 0, 0, 5, 3, 0, 0, 20, 0, 6, 0,
              123456, 700000000, 10000, 18446744073709551615, 4194304, 4196300,
              140730000000000, 0, 0, 0] :: int list"
  have n: "\<not> space_after_paren ''my(app)''"
    by (simp add: space_after_paren_def)
  have r: "stat_record 1234 ''my(app)'' (CHR ''S'') ?fs =
      ''1234 (my(app)) S 1 1234 1234 34816 1234 4202496 1000 0 0 0 5 3 0 0 20 0 6 0 123456 700000000 10000 18446744073709551615 4194304 4196300 140730000000000 0 0 0'' @ [CHR 0x0A]"
    by (simp add: record_eval)
  have v: "(scast (stored Conv_u (?fs ! 19)) :: 64 word) = 700000000"
    by (simp add: stored_u_in_range)
  have p: "(scast (stored Conv_u (?fs ! 20)) :: 64 word) * 4096 = 40960000"
    by (simp add: stored_u_in_range)
  have d: "CHR 0x00 # drop (length ''my(app)'' + 3) (replicate 4097 (CHR 0x00)) =
             replicate 4088 (CHR 0x00)"
    by (simp add: replicate_Suc [symmetric] del: replicate_Suc)
  from scan_exe_ends_at_trailing_paren
    [of "''my(app)''" "replicate 4097 (CHR 0x00)" ?fs "''S 1''" "4096 :: 64 word" 0 1234
       "CHR ''S''" 0 0]
  show ?thesis
    unfolding r v p d using n by simp
qed

text \<open>
  C2 at the failing input: the record of a process named \<open>f(x) y\<close>, a name with
  balanced parentheses that \<open>prctl(PR_SET_NAME)\<close> accepts.  The scanner does not look
  for the trailing \<open>)\<close>: it takes the first \<open>)\<close> that a space follows as the end
  of the name, leaves \<open>(f(x)\<close> in \<open>buf\<close> and goes on at \<open>y) S ...\<close>; the
  state is read as \<open>y\<close>, the next field does not convert, and the well-formed record
  is rejected with \<open>-1\<close>.
\<close>

theorem scan_exe_stops_at_first_paren_space:
  "scan_exe (''('' @ ''f(x) y'' @ '') '' @ ''S 1 2'') (replicate 4097 (CHR 0x00)) =
     Returned (Some (''y) S 1 2'', ''(f(x)'' @ replicate 4092 (CHR 0x00))) \<and>
   GetMemory (4096 :: 64 word) 0
     (Some (''1234 (f(x) y) S 1 1234 1234 34816 1234 4202496 1000 0 0 0 5 3 0 0 20 0 6 0 123456 700000000 10000 18446744073709551615 4194304 4196300 140730000000000 0 0 0'' @ [CHR 0x0A]))
     (replicate 4097 (CHR 0x00)) 0 0 =
     Returned (- 1, 0, 0, ''(f(x)'' @ replicate 4092 (CHR 0x00))"
proof -
  have e: "scan_exe (''('' @ ''f(x'' @ '') '' @ r) (replicate 4097 (CHR 0x00)) =
      Returned (Some (r, ''('' @ ''f(x'' @ '')'' @ replicate (4095 - length ''f(x'') (CHR 0x00)))" for r
    by (rule scan_exe_zero_buf) (simp_all add: space_after_paren_def)
  have "scan_exe (''('' @ ''f(x) y'' @ '') '' @ ''S 1 2'') (replicate 4097 (CHR 0x00)) =
     Returned (Some (''y) S 1 2'', ''(f(x)'' @ replicate 4092 (CHR 0x00)))"
    using e [of "''y) S 1 2''"] by (simp del: replicate_Suc)
  moreover have "GetMemory (4096 :: 64 word) 0
     (Some (''1234 (f(x) y) S 1 1234 1234 34816 1234 4202496 1000 0 0 0 5 3 0 0 20 0 6 0 123456 700000000 10000 18446744073709551615 4194304 4196300 140730000000000 0 0 0'' @ [CHR 0x0A]))
     (replicate 4097 (CHR 0x00)) 0 0 =
     Returned (- 1, 0, 0, ''(f(x)'' @ replicate 4092 (CHR 0x00))"
    unfolding GetMemory_def
    using e by (simp add: scan_eval del: replicate_Suc)
  ultimately show ?thesis by simp
qed

text \<open>
  C5 at the failing input: a record whose virtual memory size is 3000000000 bytes,
  with 10000 resident pages of 4096 bytes.  \<open>%u\<close> stores the size in the \<open>int\<close>
  \<open>itmp\<close>, where it is negative, and the cast to a 64-bit \<open>size_t\<close> extends the
  sign: the reported virtual size is \<open>2^64 - 1294967296\<close>.  With a 32-bit
  \<open>size_t\<close> the same record gives 3000000000.
\<close>

theorem GetMemory_large_vsize:
  "GetMemory (4096 :: 64 word) itmp0
     (Some (''1234 (node) S 1 1234 1234 34816 1234 4202496 1000 0 0 0 5 3 0 0 20 0 6 0 123456 3000000000 10000 18446744073709551615 4194304 4196300 140730000000000 0 0 0'' @ [CHR 0x0A]))
     (replicate 4097 (CHR 0x00)) rss vsize =
     Returned (0, 40960000, 18446744072414584320, ''(node)'' @ replicate 4091 (CHR 0x00)) \<and>
   GetMemory (4096 :: 32 word) itmp0
     (Some (''1234 (node) S 1 1234 1234 34816 1234 4202496 1000 0 0 0 5 3 0 0 20 0 6 0 123456 3000000000 10000 18446744073709551615 4194304 4196300 140730000000000 0 0 0'' @ [CHR 0x0A]))
     (replicate 4097 (CHR 0x00)) rss' vsize' =
     Returned (0, 40960000, 3000000000, ''(node)'' @ replicate 4091 (CHR 0x00))"
proof -
  have e: "scan_exe (''('' @ ''node'' @ '') '' @ r) (replicate 4097 (CHR 0x00)) =
      Returned (Some (r, ''('' @ ''node'' @ '')'' @ replicate (4095 - length ''node'') (CHR 0x00)))" for r
    by (rule scan_exe_zero_buf) (simp_all add: space_after_paren_def)
  show ?thesis
    unfolding GetMemory_def
    using e by (simp add: scan_eval del: replicate_Suc)
qed

text \<open>
  For a well-formed record whose fields 23 and 24 are below \<open>2^31\<close> the two results are
  the virtual size as written and the resident page count times the page size (in
  \<open>size_t\<close> arithmetic).
\<close>

theorem GetMemory_fields_in_range:
  assumes "25 \<le> length fs" and "\<not> space_after_paren name" and "length name + 3 \<le> length buf"
    and "0 \<le> fs ! 19" and "fs ! 19 < 2 ^ 31" and "0 \<le> fs ! 20" and "fs ! 20 < 2 ^ 31"
  shows "GetMemory page_size itmp0 (Some (stat_record pid name state fs)) buf rss vsize =
           Returned (0, word_of_int (fs ! 20) * page_size, word_of_int (fs ! 19),
                     ''('' @ name @ '')'' @ CHR 0x00 # drop (length name + 3) buf)"
  using GetMemory_valid_record [OF assms(1,2,3)] assms(4-7)
  by (simp add: stored_u_in_range)

theorem GetMemory_fields_in_range_witness:
  "GetMemory (4096 :: 64 word) 0
     (Some (''1234 (node) S 1 1234 1234 34816 1234 4202496 1000 0 0 0 5 3 0 0 20 0 6 0 123456 700000000 10000 18446744073709551615 4194304 4196300 140730000000000 0 0 0'' @ [CHR 0x0A]))
     (replicate 4097 (CHR 0x00)) 0 0 =
     Returned (0, 40960000, 700000000, ''(node)'' @ replicate 4091 (CHR 0x00))"
proof -
  let ?fs = "[1, 1234, 1234, 34816, 1234, 4202496, 1000, 0, 0, 0, 5, 3, 0, 0, 20, 0, 6, 0,
              123456, 700000000, 10000, 18446744073709551615, 4194304, 4196300,
              140730000000000, 0, 0, 0] :: int list"
  have r: "stat_record 1234 ''node'' (CHR ''S'') ?fs =
      ''1234 (node) S 1 1234 1234 34816 1234 4202496 1000 0 0 0 5 3 0 0 20 0 6 0 123456 700000000 10000 18446744073709551615 4194304 4196300 140730000000000 0 0 0'' @ [CHR 0x0A]"
    by (simp add: record_eval)
  have d: "CHR 0x00 # drop (length ''node'' + 3) (replicate 4097 (CHR 0x00)) =
             replicate 4091 (CHR 0x00)"
    by (simp add: replicate_Suc [symmetric] del: replicate_Suc)
  have "GetMemory (4096 :: 64 word) 0 (Some (stat_record 1234 ''node'' (CHR ''S'') ?fs))
          (replicate 4097 (CHR 0x00)) 0 0 =
        Returned (0, word_of_int (?fs ! 20) * 4096, word_of_int (?fs ! 19),
                  ''('' @ ''node'' @ '')'' @ CHR 0x00 # drop (length ''node'' + 3) (replicate 4097 (CHR 0x00)))"
    by (rule GetMemory_fields_in_range) (simp_all add: space_after_paren_def)
  then show ?thesis
    unfolding r d by simp
qed

subsection \<open>CPU information\<close>

declare model_loop.simps [simp del] stat_loop.simps [simp del]

declare bit_length.simps [simp del]

text \<open>A number below \<open>2^53\<close> is converted as it is.\<close>

lemma bit_length_le: "n < 2 ^ k \<Longrightarrow> bit_length n \<le> k"
proof (induction k arbitrary: n)
  case 0
  then show ?case by (simp add: bit_length.simps)
next
  case (Suc k)
  show ?case
  proof (cases "n = 0")
    case True
    then show ?thesis by (simp add: bit_length.simps)
  next
    case False
    from Suc.prems have "n div 2 < 2 ^ k" by simp
    from Suc.IH [OF this] False show ?thesis
      by (subst bit_length.simps) simp
  qed
qed

lemma double_of_nat_exact: "n < 2 ^ 53 \<Longrightarrow> double_of_nat n = n"
  using bit_length_le [of n 53] by (simp add: double_of_nat_def Let_def)

lemma Number_New_exact: "unat v < 2 ^ 53 \<Longrightarrow> Number_New v = unat v"
  by (simp add: Number_New_def double_of_nat_exact)

text \<open>
  Above \<open>2^53\<close> the number is rounded: \<open>2^54 + 6\<close> lies halfway between two
  \<open>double\<close>s and becomes \<open>2^54 + 8\<close>.
\<close>

lemma Number_New_rounds: "Number_New 18014398509481990 = 18014398509481992"
  by (simp add: Number_New_def double_of_nat_def bit_length.simps Let_def)

lemmas cpu_eval = GetCPUInfo_def read_cpuinfo_def fgets_def store_string_def cstring_def
  strchr_def sscanf_cpuspeed_def sscanf_ticks_def read_core_def core_object_def array_set_def
  scan_number_def isspace_def isdigit_def digits_val_def strtoul_def Let_def
  model_loop.simps stat_loop.simps Number_New_exact

text \<open>
  C3 at the failing input: two cores, \<open>/proc/cpuinfo\<close> giving 1000 MHz, and a
  frequency file for core 0 only, holding 2400000 kHz.  Core 0 reports 2400 MHz, and so
  does core 1: \<open>cpuspeed\<close> is one variable, the file of core 0 has overwritten the
  value from \<open>/proc/cpuinfo\<close>, and nothing restores it for the next core.
\<close>

theorem GetCPUInfo_second_core_speed:
  "GetCPUInfo 100
     (Some (''cpu  10 20 30 40 50 60 70'' @ [CHR 0x0A] @ ''cpu0 5 10 15 20 25 30 35'' @ [CHR 0x0A] @
            ''cpu1 6 11 16 21 26 31 36'' @ [CHR 0x0A] @ ''intr 100 2 3'' @ [CHR 0x0A]))
     (Some (''processor : 0'' @ [CHR 0x0A] @ ''model name : Test CPU'' @ [CHR 0x0A] @
            ''cpu MHz : 1000.000'' @ [CHR 0x0A] @ [CHR 0x0A] @
            ''processor : 1'' @ [CHR 0x0A] @ ''model name : Test CPU'' @ [CHR 0x0A] @
            ''cpu MHz : 1000.000'' @ [CHR 0x0A]))
     (\<lambda>i. if i = 0 then Some (''2400000'' @ [CHR 0x0A]) else None)
     \<lparr>line = replicate 512 (CHR 0x00), model = replicate 512 (CHR 0x00), cpuspeed = s0,
      numcpus = n0, ticks_user = t1, ticks_nice = t2, ticks_sys = t3, ticks_idle = t4,
      ticks_intr = t5\<rparr> =
   Returned (0,
     [Some \<lparr>model_name = ''Test CPU'', speed = 2400,
            times = \<lparr>user = 50, nice = 100, sys = 150, idle = 200, irq = 300\<rparr>\<rparr>,
      Some \<lparr>model_name = ''Test CPU'', speed = 2400,
            times = \<lparr>user = 60, nice = 110, sys = 160, idle = 210, irq = 310\<rparr>\<rparr>])"
  by (simp add: cpu_eval)

text \<open>With no frequency file at all, both cores report the 1000 MHz of \<open>/proc/cpuinfo\<close>.\<close>

lemma GetCPUInfo_fallback_speed:
  "GetCPUInfo 100
     (Some (''cpu  10 20 30 40 50 60 70'' @ [CHR 0x0A] @ ''cpu0 5 10 15 20 25 30 35'' @ [CHR 0x0A] @
            ''cpu1 6 11 16 21 26 31 36'' @ [CHR 0x0A] @ ''intr 100 2 3'' @ [CHR 0x0A]))
     (Some (''processor : 0'' @ [CHR 0x0A] @ ''model name : Test CPU'' @ [CHR 0x0A] @
            ''cpu MHz : 1000.000'' @ [CHR 0x0A] @ [CHR 0x0A] @
            ''processor : 1'' @ [CHR 0x0A] @ ''model name : Test CPU'' @ [CHR 0x0A] @
            ''cpu MHz : 1000.000'' @ [CHR 0x0A]))
     (\<lambda>i. None)
     \<lparr>line = replicate 512 (CHR 0x00), model = replicate 512 (CHR 0x00), cpuspeed = s0,
      numcpus = n0, ticks_user = t1, ticks_nice = t2, ticks_sys = t3, ticks_idle = t4,
      ticks_intr = t5\<rparr> =
   Returned (0,
     [Some \<lparr>model_name = ''Test CPU'', speed = 1000,
            times = \<lparr>user = 50, nice = 100, sys = 150, idle = 200, irq = 300\<rparr>\<rparr>,
      Some \<lparr>model_name = ''Test CPU'', speed = 1000,
            times = \<lparr>user = 60, nice = 110, sys = 160, idle = 210, irq = 310\<rparr>\<rparr>])"
  by (simp add: cpu_eval)

subsection \<open>Lines of the counters source\<close>

lemma fgets_text_line:
  assumes "text_line l"
  shows "fgets 511 (l @ rest) = Some (l, rest)"
proof -
  from assms obtain b where l: "l = b @ [CHR 0x0A]" and nb: "CHR 0x0A \<notin> set b" and len: "length l \<le> 510"
    unfolding text_line_def by (metis append_butlast_last_id)
  have t: "take 510 (l @ rest) = l @ take (510 - length l) rest"
    using len by simp
  have tw: "takeWhile (\<lambda>c. c \<noteq> CHR 0x0A) (l @ take (510 - length l) rest) = b"
    using nb by (simp add: l takeWhile_append takeWhile_eq_all_conv)
  have lb: "Suc (length b) = length l" by (simp add: l)
  have ne: "l \<noteq> []" by (simp add: l)
  show ?thesis
    using len ne by (simp add: fgets_def Let_def t tw lb)
qed

lemma show_int_nat: "show_int (int v) = dec v"
  by (simp add: show_int_def)

lemma newline_not_in_dec: "CHR 0x0A \<notin> set (dec n)"
  using dec_digits [of "CHR 0x0A" n] by (auto simp: isdigit_def)

lemma NUL_not_in_dec: "CHR 0x00 \<notin> set (dec n)"
  using dec_digits [of "CHR 0x00" n] by (auto simp: isdigit_def)

lemma stat_fields_nat_butlast:
  "\<exists>b. stat_fields (map int cs) = b @ [CHR 0x0A] \<and> CHR 0x0A \<notin> set b \<and> CHR 0x00 \<notin> set b"
proof -
  have "CHR 0x0A \<notin> set (concat (map (\<lambda>v. CHR '' '' # show_int v) (map int cs)))"
    by (auto simp: show_int_nat newline_not_in_dec)
  moreover have "CHR 0x00 \<notin> set (concat (map (\<lambda>v. CHR '' '' # show_int v) (map int cs)))"
    by (auto simp: show_int_nat NUL_not_in_dec)
  ultimately show ?thesis
    unfolding stat_fields_def by blast
qed

lemma text_line_cpu_line:
  assumes "length (cpu_line n cs) \<le> 510"
  shows "text_line (cpu_line n cs)" and "CHR 0x00 \<notin> set (cpu_line n cs)"
proof -
  obtain b where b: "stat_fields (map int cs) = b @ [CHR 0x0A]" and nb: "CHR 0x0A \<notin> set b"
    and zb: "CHR 0x00 \<notin> set b"
    using stat_fields_nat_butlast by blast
  have c: "cpu_line n cs = (''cpu'' @ dec n @ b) @ [CHR 0x0A]"
    by (simp add: cpu_line_def b)
  have "CHR 0x0A \<notin> set (''cpu'' @ dec n @ b)"
    using nb newline_not_in_dec by simp
  then show "text_line (cpu_line n cs)"
    using assms unfolding text_line_def c by (simp del: append_assoc)
  show "CHR 0x00 \<notin> set (cpu_line n cs)"
    using zb NUL_not_in_dec by (simp add: cpu_line_def b)
qed

lemma stat_fields_head_space: "\<exists>c r. stat_fields fs = c # r \<and> isspace c"
  by (cases fs) (simp_all add: stat_fields_def isspace_def)

lemma strtoul_small: "v < 2 ^ 64 \<Longrightarrow> strtoul False v = v"
  by (simp add: strtoul_def)

lemma scan_number_nat_field:
  "scan_number (show_int (int v) @ stat_fields vs) = Num False v (stat_fields vs)"
  using scan_number_show_int [OF stat_fields_not_digit, of "int v" vs] by simp

lemma scanf_llu_field:
  assumes "v < 2 ^ 64"
  shows "scanf (Space # Conv_llu # fmt) (stat_fields (int v # vs)) args =
           scanf fmt (stat_fields vs) (args @ [Arg_llu (word_of_nat v)])"
  by (simp add: dropWhile_stat_fields_Cons scan_number_nat_field strtoul_small [OF assms])

lemma scanf_skip_llu_field:
  "scanf (Space # Skip_llu # fmt) (stat_fields (int v # vs)) args =
     scanf fmt (stat_fields vs) args"
  by (simp add: dropWhile_stat_fields_Cons scan_number_nat_field)

lemma scanf_skip_s_cpu_line:
  "scanf (Skip_s # fmt) (cpu_line n cs) args = scanf fmt (stat_fields (map int cs)) args"
proof -
  obtain c r where sf: "stat_fields (map int cs) = c # r" and sp: "isspace c"
    using stat_fields_head_space by blast
  have ns: "\<forall>x \<in> set (''cpu'' @ dec n). \<not> isspace x"
    using dec_digits isdigit_not_space by (auto simp: isspace_def)
  have d1: "dropWhile isspace (cpu_line n cs) = cpu_line n cs"
    by (simp add: cpu_line_def isspace_def)
  have "dropWhile (\<lambda>c. \<not> isspace c) ((''cpu'' @ dec n) @ c # r) =
          dropWhile (\<lambda>c. \<not> isspace c) (c # r)"
    by (rule dropWhile_append2) (use ns in blast)
  then have "dropWhile (\<lambda>c. \<not> isspace c) ((''cpu'' @ dec n) @ c # r) = c # r"
    using sp by simp
  then have d2: "dropWhile (\<lambda>c. \<not> isspace c) (cpu_line n cs) = stat_fields (map int cs)"
    by (simp add: cpu_line_def sf)
  have ne: "cpu_line n cs \<noteq> []" by (simp add: cpu_line_def)
  show ?thesis
    by (simp add: d1 d2 ne)
qed

lemma scanf_Nil: "scanf [] s args = (args, Format_done, s)"
  by simp

lemma sscanf_ticks_cpu_line:
  assumes l: "takeWhile (\<lambda>c. c \<noteq> CHR 0x00) (line L) = cpu_line n (c0 # c1 # c2 # c3 # c4 # c5 # cs')"
    and b: "c0 < 2 ^ 64" "c1 < 2 ^ 64" "c2 < 2 ^ 64" "c3 < 2 ^ 64" "c5 < 2 ^ 64"
  shows "sscanf_ticks L =
           L\<lparr>ticks_user := word_of_nat c0, ticks_nice := word_of_nat c1,
             ticks_sys := word_of_nat c2, ticks_idle := word_of_nat c3,
             ticks_intr := word_of_nat c5\<rparr>"
proof -
  have "scanf [Skip_s, Space, Conv_llu, Space, Conv_llu, Space, Conv_llu, Space, Conv_llu,
                  Space, Skip_llu, Space, Conv_llu]
          (cpu_line n (c0 # c1 # c2 # c3 # c4 # c5 # cs')) [] =
        ([Arg_llu (word_of_nat c0), Arg_llu (word_of_nat c1), Arg_llu (word_of_nat c2),
          Arg_llu (word_of_nat c3), Arg_llu (word_of_nat c5)], Format_done,
         stat_fields (map int cs'))"
    apply (subst scanf_skip_s_cpu_line)
    apply (simp only: list.map)
    apply (subst scanf_llu_field [OF b(1)])
    apply (subst scanf_llu_field [OF b(2)])
    apply (subst scanf_llu_field [OF b(3)])
    apply (subst scanf_llu_field [OF b(4)])
    apply (subst scanf_skip_llu_field)
    apply (subst scanf_llu_field [OF b(5)])
    apply (simp only: scanf_Nil append.simps)
    done
  then show ?thesis
    unfolding sscanf_ticks_def l by simp
qed

lemma sscanf_cpuspeed_frame:
  "model (sscanf_cpuspeed fmt L) = model L"
  "ticks_user (sscanf_cpuspeed fmt L) = ticks_user L"
  "ticks_nice (sscanf_cpuspeed fmt L) = ticks_nice L"
  "ticks_sys (sscanf_cpuspeed fmt L) = ticks_sys L"
  "ticks_idle (sscanf_cpuspeed fmt L) = ticks_idle L"
  "ticks_intr (sscanf_cpuspeed fmt L) = ticks_intr L"
  by (auto simp: sscanf_cpuspeed_def split: prod.splits list.splits arg.splits)

lemma read_core_frame:
  "model (read_core cpufreq i L) = model (sscanf_ticks L)"
  "ticks_user (read_core cpufreq i L) = ticks_user (sscanf_ticks L)"
  "ticks_nice (read_core cpufreq i L) = ticks_nice (sscanf_ticks L)"
  "ticks_sys (read_core cpufreq i L) = ticks_sys (sscanf_ticks L)"
  "ticks_idle (read_core cpufreq i L) = ticks_idle (sscanf_ticks L)"
  "ticks_intr (read_core cpufreq i L) = ticks_intr (sscanf_ticks L)"
  by (auto simp: read_core_def Let_def sscanf_cpuspeed_frame split: option.splits prod.splits)

lemma cstring_store_string:
  "CHR 0x00 \<notin> set s \<Longrightarrow> takeWhile (\<lambda>c. c \<noteq> CHR 0x00) (store_string arr s) = s"
  by (simp add: store_string_def takeWhile_append takeWhile_eq_all_conv[THEN iffD2])

lemma take_store_string:
  "k \<le> length s \<Longrightarrow> take k (store_string arr s) = take k s"
  by (simp add: store_string_def)

lemma cstring_model: "CHR 0x00 \<in> set arr \<Longrightarrow> \<exists>m. cstring arr 0 = Some m"
  by (simp add: cstring_def)

lemma assign_ticks_frame:
  "cpuspeed (assign_ticks args k L) = cpuspeed L"
  "model (assign_ticks args k L) = model L"
  "line (assign_ticks args k L) = line L"
  by (induction args k L rule: assign_ticks.induct) auto

lemma sscanf_ticks_frame:
  "cpuspeed (sscanf_ticks L) = cpuspeed L"
  "line (sscanf_ticks L) = line L"
  by (auto simp: sscanf_ticks_def assign_ticks_frame split: prod.splits)

lemma read_core_no_file:
  "cpufreq i = None \<Longrightarrow> cpuspeed (read_core cpufreq i L) = cpuspeed L"
  by (simp add: read_core_def Let_def sscanf_ticks_frame)

lemma length_dec_le: "n < 10 ^ k \<Longrightarrow> 0 < k \<Longrightarrow> length (dec n) \<le> k"
proof (induction k arbitrary: n)
  case 0
  then show ?case by simp
next
  case (Suc k)
  show ?case
  proof (cases "n < 10")
    case True
    then show ?thesis by (simp add: dec.simps [of n])
  next
    case False
    with Suc.prems have k: "0 < k" by (cases k) auto
    from Suc.prems have "n div 10 < 10 ^ k"
      by (simp add: less_mult_imp_div_less mult.commute)
    from Suc.IH [OF this k] False show ?thesis by (simp add: dec.simps [of n])
  qed
qed

lemma length_dec_u32: "v < 2 ^ 32 \<Longrightarrow> length (dec v) \<le> 10"
  by (rule length_dec_le) simp_all

lemma read_core_file:
  assumes f: "cpufreq i = Some (dec v @ [CHR 0x0A])" and v: "v < 2 ^ 32"
  shows "unat (cpuspeed (read_core cpufreq i L)) = v div 1000"
proof -
  let ?l = "dec v @ [CHR 0x0A]"
  have tl: "text_line ?l"
    using length_dec_u32 [OF v] newline_not_in_dec by (simp add: text_line_def)
  have fg: "fgets 511 ?l = Some (?l, [])"
    using fgets_text_line [OF tl, of "[]"] by simp
  have nz: "CHR 0x00 \<notin> set ?l" using NUL_not_in_dec by simp
  have sn: "scan_number (show_int (int v) @ [CHR 0x0A]) = Num False v [CHR 0x0A]"
    using scan_number_show_int [of "[CHR 0x0A]" "int v"] by (simp add: isdigit_def)
  have v64: "v < 2 ^ 64" using v by (rule less_trans) simp
  have sc: "scanf [Conv_u] ?l [] = ([Arg_int (word_of_nat v)], Format_done, [CHR 0x0A])"
    using sn by (simp add: show_int_nat strtoul_small [OF v64])
  have "cpuspeed (read_core cpufreq i L) = (word_of_nat v :: 32 word) div 1000"
    by (simp add: read_core_def Let_def f fg sscanf_cpuspeed_def cstring_store_string [OF nz] sc
          del: scanf.simps)
  moreover have "unat (word_of_nat v :: 32 word) = v"
    using v by (simp add: unat_of_nat)
  ultimately show ?thesis
    by (simp add: unat_div)
qed

lemma stat_loop_cpu_line:
  assumes len: "length (cpu_line n (c0 # c1 # c2 # c3 # c4 # c5 # cs')) \<le> 510"
    and b: "c0 < 2 ^ 64" "c1 < 2 ^ 64" "c2 < 2 ^ 64" "c3 < 2 ^ 64" "c5 < 2 ^ 64"
    and nul: "CHR 0x00 \<in> set (model L)"
  shows "\<exists>L2 e. stat_loop m cpufreq (cpu_line n (c0 # c1 # c2 # c3 # c4 # c5 # cs') @ rest) i L cpus =
                  stat_loop m cpufreq rest (Suc i) L2 (array_set cpus i e) \<and>
                model L2 = model L \<and>
                times e = ticks_ms (ucast m) (c0 # c1 # c2 # c3 # c4 # c5 # cs') \<and>
                speed e = cpuspeed L2 \<and>
                (cpufreq i = None \<longrightarrow> cpuspeed L2 = cpuspeed L) \<and>
                (\<forall>v. cpufreq i = Some (dec v @ [CHR 0x0A]) \<and> v < 2 ^ 32 \<longrightarrow>
                     unat (cpuspeed L2) = v div 1000)"
proof -
  let ?l = "cpu_line n (c0 # c1 # c2 # c3 # c4 # c5 # cs')"
  let ?L1 = "L\<lparr>line := store_string (line L) ?l\<rparr>"
  let ?L2 = "read_core cpufreq i ?L1"
  have tl: "text_line ?l" and nz: "CHR 0x00 \<notin> set ?l"
    using text_line_cpu_line [OF len] by blast+
  have fg: "fgets 511 (?l @ rest) = Some (?l, rest)"
    by (rule fgets_text_line [OF tl])
  obtain d ds where d: "dec n = d # ds"
    using dec_not_Nil [of n] by (cases "dec n") auto
  have dd: "isdigit d" using dec_digits [of d n] d by simp
  then have dsp: "d \<noteq> CHR '' ''" by (auto simp: isdigit_def)
  have l4: "take 4 ?l = ''cpu'' @ [d]" and l3: "take 3 ?l = ''cpu''" and ll: "4 \<le> length ?l"
    by (simp_all add: cpu_line_def d)
  have t4: "take 4 (store_string (line L) ?l) \<noteq> ''cpu ''"
    using l4 dsp ll by (simp add: take_store_string)
  have t3: "take 3 (store_string (line L) ?l) = ''cpu''"
    using l3 ll by (simp add: take_store_string)
  have cl: "takeWhile (\<lambda>c. c \<noteq> CHR 0x00) (line ?L1) = ?l"
    using nz by (simp add: cstring_store_string)
  have st: "sscanf_ticks ?L1 =
           ?L1\<lparr>ticks_user := word_of_nat c0, ticks_nice := word_of_nat c1,
             ticks_sys := word_of_nat c2, ticks_idle := word_of_nat c3,
             ticks_intr := word_of_nat c5\<rparr>"
    by (rule sscanf_ticks_cpu_line [OF cl b])
  have m2: "model ?L2 = model L"
    by (simp add: read_core_frame st)
  obtain mm where mm: "cstring (model ?L2) 0 = Some mm"
    using cstring_model nul m2 by metis
  have r1: "stat_loop m cpufreq (?l @ rest) i L cpus =
          stat_loop m cpufreq rest (Suc i) ?L2 (array_set cpus i (core_object m mm ?L2))"
    by (subst stat_loop.simps) (simp add: fg t4 t3 mm Let_def del: take_Cons_numeral)
  have r2: "times (core_object m mm ?L2) = ticks_ms (ucast m) (c0 # c1 # c2 # c3 # c4 # c5 # cs')"
    by (simp add: core_object_def ticks_ms_def read_core_frame st)
  have r3: "speed (core_object m mm ?L2) = cpuspeed ?L2"
    by (simp add: core_object_def)
  have r4: "cpufreq i = None \<longrightarrow> cpuspeed ?L2 = cpuspeed L"
    by (simp add: read_core_no_file)
  have r5: "\<forall>v. cpufreq i = Some (dec v @ [CHR 0x0A]) \<and> v < 2 ^ 32 \<longrightarrow>
                     unat (cpuspeed ?L2) = v div 1000"
    by (simp add: read_core_file)
  show ?thesis
    by (rule exI [of _ ?L2], rule exI [of _ "core_object m mm ?L2"])
       (intro conjI r1 m2 r2 r3 r4 r5)
qed

lemma stat_loop_aggregate:
  assumes "text_line agg" and "take 4 agg = ''cpu ''"
  shows "stat_loop m cpufreq (agg @ rest) i L cpus =
           stat_loop m cpufreq rest i (L\<lparr>line := store_string (line L) agg\<rparr>) cpus"
proof -
  have fg: "fgets 511 (agg @ rest) = Some (agg, rest)"
    by (rule fgets_text_line [OF assms(1)])
  have "length (take 4 agg) = 4" using assms(2) by simp
  then have ll: "4 \<le> length agg" by simp
  have t4: "take 4 (store_string (line L) agg) = ''cpu ''"
    using assms(2) ll by (simp add: take_store_string)
  show ?thesis
    by (subst stat_loop.simps) (simp add: fg t4 Let_def)
qed

lemma fgets_prefix:
  assumes "fgets 511 fp = Some (chunk, rest)"
  shows "\<exists>j. 0 < j \<and> chunk = take j fp \<and> fp \<noteq> []"
proof -
  from assms have ne: "fp \<noteq> []" by (auto simp: fgets_def split: if_splits)
  let ?k = "Suc (length (takeWhile (\<lambda>c. c \<noteq> CHR 0x0A) (take 510 fp)))"
  from assms ne have "chunk = take ?k (take 510 fp)"
    by (auto simp: fgets_def Let_def)
  then have "chunk = take (min ?k 510) fp" by simp
  moreover have "0 < min ?k 510" by simp
  ultimately show ?thesis using ne by blast
qed

lemma not_cpu_prefix:
  assumes c: "chunk = take j tail" and j: "0 < j" and t: "take 3 tail \<noteq> ''cpu''"
  shows "take 3 (store_string arr chunk) \<noteq> ''cpu''"
proof (cases "3 \<le> length chunk")
  case True
  then have "3 \<le> j" using c by simp
  then have "take 3 chunk = take 3 tail" by (simp add: c min_def)
  then show ?thesis using t True by (simp add: take_store_string)
next
  case False
  then have "length chunk = 0 \<or> length chunk = 1 \<or> length chunk = 2" by arith
  then show ?thesis
  proof (elim disjE)
    assume "length chunk = 0"
    then show ?thesis by (simp add: store_string_def)
  next
    assume "length chunk = 1"
    then obtain a where "chunk = [a]" by (cases chunk) auto
    then show ?thesis by (simp add: store_string_def)
  next
    assume "length chunk = 2"
    then obtain a b where "chunk = [a, b]"
      by (cases chunk; cases "tl chunk") auto
    then show ?thesis by (simp add: store_string_def)
  qed
qed

lemma stat_loop_tail:
  assumes "tail = [] \<or> take 3 tail \<noteq> ''cpu''"
  shows "stat_loop m cpufreq tail i L cpus = Returned cpus"
proof (cases "fgets 511 tail")
  case None
  then show ?thesis by (subst stat_loop.simps) simp
next
  case (Some cr)
  obtain chunk rest where cr: "cr = (chunk, rest)" by (cases cr)
  from fgets_prefix [OF Some [unfolded cr]] obtain j where
    j: "0 < j" and c: "chunk = take j tail" and ne: "tail \<noteq> []" by blast
  with assms have t: "take 3 tail \<noteq> ''cpu''" by simp
  have t3: "take 3 (store_string (line L) chunk) \<noteq> ''cpu''"
    by (rule not_cpu_prefix [OF c j t])
  have t4: "take 4 (store_string (line L) chunk) \<noteq> ''cpu ''"
  proof
    assume "take 4 (store_string (line L) chunk) = ''cpu ''"
    then have "take 3 (take 4 (store_string (line L) chunk)) = take 3 ''cpu ''"
      by (rule arg_cong)
    then have "take 3 (store_string (line L) chunk) = ''cpu''"
      by simp
    with t3 show False by simp
  qed
  show ?thesis
    by (subst stat_loop.simps) (simp add: Some cr t3 t4 Let_def)
qed

lemma array_set_facts:
  assumes "i \<le> length arr"
  shows "Suc i \<le> length (array_set arr i e)" and "array_set arr i e ! i = Some e"
    and "j < i \<Longrightarrow> array_set arr i e ! j = arr ! j"
  using assms by (auto simp: array_set_def nth_append)

lemma counters_okD:
  assumes "counters_ok (n, cs)"
  obtains c0 c1 c2 c3 c4 c5 cs' where "cs = c0 # c1 # c2 # c3 # c4 # c5 # cs'"
    and "c0 < 2 ^ 64" "c1 < 2 ^ 64" "c2 < 2 ^ 64" "c3 < 2 ^ 64" "c5 < 2 ^ 64"
    and "length (cpu_line n cs) \<le> 510"
proof -
  from assms have len: "6 \<le> length cs" by (simp add: counters_ok_def)
  then obtain c0 c1 c2 c3 c4 c5 cs' where cs: "cs = c0 # c1 # c2 # c3 # c4 # c5 # cs'"
    by (cases cs; cases "tl cs"; cases "tl (tl cs)"; cases "tl (tl (tl cs))";
        cases "tl (tl (tl (tl cs)))"; cases "tl (tl (tl (tl (tl cs))))") auto
  with assms that show ?thesis
    by (simp add: counters_ok_def)
qed

lemma stat_loop_cores:
  assumes "\<forall>nc \<in> set cores. counters_ok nc" and "tail = [] \<or> take 3 tail \<noteq> ''cpu''"
    and "CHR 0x00 \<in> set (model L)" and "i \<le> length cpus"
  shows "\<exists>cpus'. stat_loop m cpufreq (concat (map (\<lambda>(n, cs). cpu_line n cs) cores) @ tail) i L cpus =
                    Returned cpus' \<and>
                  i + length cores \<le> length cpus' \<and>
                  (\<forall>j < length cores. \<exists>e. cpus' ! (i + j) = Some e \<and>
                       times e = ticks_ms (ucast m) (snd (cores ! j)) \<and>
                       ((\<forall>k \<le> j. cpufreq (i + k) = None) \<longrightarrow> speed e = cpuspeed L) \<and>
                       (\<forall>v. cpufreq (i + j) = Some (dec v @ [CHR 0x0A]) \<and> v < 2 ^ 32 \<longrightarrow>
                            unat (speed e) = v div 1000)) \<and>
                  (\<forall>j < i. cpus' ! j = cpus ! j)"
  using assms
proof (induction cores arbitrary: i L cpus)
  case Nil
  then show ?case by (simp add: stat_loop_tail)
next
  case (Cons nc cores)
  obtain n cs where nc: "nc = (n, cs)" by (cases nc)
  with Cons.prems(1) have ok: "counters_ok (n, cs)" by simp
  from ok obtain c0 c1 c2 c3 c4 c5 cs' where cs: "cs = c0 # c1 # c2 # c3 # c4 # c5 # cs'"
    and b: "c0 < 2 ^ 64" "c1 < 2 ^ 64" "c2 < 2 ^ 64" "c3 < 2 ^ 64" "c5 < 2 ^ 64"
    and len: "length (cpu_line n cs) \<le> 510"
    by (rule counters_okD)
  let ?rest = "concat (map (\<lambda>(n, cs). cpu_line n cs) cores) @ tail"
  from stat_loop_cpu_line [OF len [unfolded cs] b Cons.prems(3),
      where m = m and cpufreq = cpufreq and rest = ?rest and i = i and cpus = cpus]
  obtain L2 e where
    step: "stat_loop m cpufreq (cpu_line n cs @ ?rest) i L cpus =
             stat_loop m cpufreq ?rest (Suc i) L2 (array_set cpus i e)" and
    m2: "model L2 = model L" and
    te: "times e = ticks_ms (ucast m) cs" and
    sp: "speed e = cpuspeed L2" and
    nf: "cpufreq i = None \<Longrightarrow> cpuspeed L2 = cpuspeed L" and
    fl: "\<And>v. cpufreq i = Some (dec v @ [CHR 0x0A]) \<Longrightarrow> v < 2 ^ 32 \<Longrightarrow>
            unat (cpuspeed L2) = v div 1000"
    unfolding cs by auto
  have a: "Suc i \<le> length (array_set cpus i e)" "array_set cpus i e ! i = Some e"
    "\<And>j. j < i \<Longrightarrow> array_set cpus i e ! j = cpus ! j"
    using array_set_facts [OF Cons.prems(4)] by blast+
  have "\<forall>nc \<in> set cores. counters_ok nc" using Cons.prems(1) by simp
  from Cons.IH [OF this Cons.prems(2) _ a(1), where L = L2] m2 Cons.prems(3)
  obtain cpus' where
    r: "stat_loop m cpufreq ?rest (Suc i) L2 (array_set cpus i e) = Returned cpus'" and
    l: "Suc i + length cores \<le> length cpus'" and
    t: "\<And>j. j < length cores \<Longrightarrow>
           \<exists>e'. cpus' ! (Suc i + j) = Some e' \<and> times e' = ticks_ms (ucast m) (snd (cores ! j)) \<and>
                ((\<forall>k \<le> j. cpufreq (Suc i + k) = None) \<longrightarrow> speed e' = cpuspeed L2) \<and>
                (\<forall>v. cpufreq (Suc i + j) = Some (dec v @ [CHR 0x0A]) \<and> v < 2 ^ 32 \<longrightarrow>
                            unat (speed e') = v div 1000)" and
    p: "\<And>j. j < Suc i \<Longrightarrow> cpus' ! j = array_set cpus i e ! j"
    by auto
  have run: "stat_loop m cpufreq
               (concat (map (\<lambda>(n, cs). cpu_line n cs) (nc # cores)) @ tail) i L cpus =
             Returned cpus'"
    using step r by (simp add: nc)
  have first: "cpus' ! i = Some e" using p [of i] a(2) by simp
  have ents: "\<exists>e'. cpus' ! (i + j) = Some e' \<and>
                times e' = ticks_ms (ucast m) (snd ((nc # cores) ! j)) \<and>
                ((\<forall>k \<le> j. cpufreq (i + k) = None) \<longrightarrow> speed e' = cpuspeed L) \<and>
                (\<forall>v. cpufreq (i + j) = Some (dec v @ [CHR 0x0A]) \<and> v < 2 ^ 32 \<longrightarrow>
                            unat (speed e') = v div 1000)"
    if "j < length (nc # cores)" for j
  proof (cases j)
    case 0
    have "(\<forall>k \<le> 0. cpufreq (i + k) = None) \<longrightarrow> speed e = cpuspeed L"
      using sp nf by simp
    moreover have "\<forall>v. cpufreq (i + 0) = Some (dec v @ [CHR 0x0A]) \<and> v < 2 ^ 32 \<longrightarrow>
                            unat (speed e) = v div 1000"
      using sp fl by simp
    ultimately show ?thesis using first te unfolding 0 by (simp add: nc)
  next
    case (Suc j')
    with that have j': "j' < length cores" by simp
    from t [OF j'] obtain e' where
      e1: "cpus' ! (Suc i + j') = Some e'" and
      e2: "times e' = ticks_ms (ucast m) (snd (cores ! j'))" and
      e3: "(\<forall>k \<le> j'. cpufreq (Suc i + k) = None) \<Longrightarrow> speed e' = cpuspeed L2" and
      e4: "\<forall>v. cpufreq (Suc i + j') = Some (dec v @ [CHR 0x0A]) \<and> v < 2 ^ 32 \<longrightarrow>
                            unat (speed e') = v div 1000"
      by blast
    have e5: "speed e' = cpuspeed L" if all: "\<forall>k \<le> Suc j'. cpufreq (i + k) = None"
    proof -
      from all have "cpufreq (i + 0) = None" by blast
      then have "cpuspeed L2 = cpuspeed L" using nf by simp
      moreover have "\<forall>k \<le> j'. cpufreq (Suc i + k) = None"
      proof (intro allI impI)
        fix k assume "k \<le> j'"
        then have "Suc k \<le> Suc j'" by simp
        with all have "cpufreq (i + Suc k) = None" by blast
        then show "cpufreq (Suc i + k) = None" by simp
      qed
      ultimately show ?thesis using e3 by simp
    qed
    show ?thesis
      using e1 e2 e4 e5 unfolding Suc by auto
  qed
  have keep: "cpus' ! j = cpus ! j" if "j < i" for j
    using p [of j] a(3) [OF that] that by simp
  show ?case
    using run l ents keep by auto
qed

subsection \<open>Lines of the descriptor source\<close>









subsection \<open>Times of the cores\<close>

lemma ucast_multiplier:
  "(ucast (word_of_nat (1000 div k) :: 32 word) :: 64 word) = word_of_nat (1000 div k)"
proof -
  have "1000 div k \<le> 1000" by simp
  then have "1000 div k < 2 ^ 32" by (rule le_less_trans) simp
  then show ?thesis
    by (simp add: unsigned_of_nat take_bit_nat_eq_self)
qed

lemma GetCPUInfo_cores:
  assumes clk: "(word_of_int sc_clk_tck :: 32 word) \<noteq> 0"
    and info: "read_cpuinfo proc_cpuinfo (L0\<lparr>numcpus := 0\<rparr>) = Returned L1"
    and nul: "CHR 0x00 \<in> set (model L1)"
    and agg: "agg = [] \<or> text_line agg \<and> take 4 agg = ''cpu ''"
    and cores: "\<forall>nc \<in> set cores. counters_ok nc"
    and tail: "tail = [] \<or> take 3 tail \<noteq> ''cpu''"
  shows "\<exists>cpus. GetCPUInfo sc_clk_tck
                  (Some (agg @ concat (map (\<lambda>(n, cs). cpu_line n cs) cores) @ tail))
                  proc_cpuinfo cpufreq L0 = Returned (0, cpus) \<and>
               length cores \<le> length cpus \<and>
               (\<forall>j < length cores. \<exists>e. cpus ! j = Some e \<and>
                  times e = ticks_ms
                    (word_of_nat (1000 div unat (word_of_int sc_clk_tck :: 32 word)))
                    (snd (cores ! j)) \<and>
                  ((\<forall>k \<le> j. cpufreq k = None) \<longrightarrow> speed e = cpuspeed L1) \<and>
                  (\<forall>v. cpufreq j = Some (dec v @ [CHR 0x0A]) \<and> v < 2 ^ 32 \<longrightarrow>
                       unat (speed e) = v div 1000))"
proof -
  let ?ticks = "word_of_int sc_clk_tck :: 32 word"
  let ?m = "word_of_nat (1000 div unat ?ticks) :: 32 word"
  let ?body = "concat (map (\<lambda>(n, cs). cpu_line n cs) cores) @ tail"
  let ?cpus0 = "replicate (numcpus L1) None :: cpuinfo option list"
  obtain La where
    first: "stat_loop ?m cpufreq (agg @ ?body) 0 L1 ?cpus0 = stat_loop ?m cpufreq ?body 0 La ?cpus0"
    and ma: "model La = model L1" and sa: "cpuspeed La = cpuspeed L1"
  proof (cases "agg = []")
    case True
    then show ?thesis using that [of L1] by simp
  next
    case False
    with agg have "text_line agg" "take 4 agg = ''cpu ''" by auto
    from stat_loop_aggregate [OF this, of ?m cpufreq ?body 0 L1 ?cpus0]
    show ?thesis using that [of "L1\<lparr>line := store_string (line L1) agg\<rparr>"] by simp
  qed
  have "CHR 0x00 \<in> set (model La)" using nul ma by simp
  moreover have "0 \<le> length ?cpus0" by simp
  ultimately have "\<exists>cpus'. stat_loop ?m cpufreq ?body 0 La ?cpus0 = Returned cpus' \<and>
      0 + length cores \<le> length cpus' \<and>
      (\<forall>j < length cores. \<exists>e. cpus' ! (0 + j) = Some e \<and>
           times e = ticks_ms (ucast ?m) (snd (cores ! j)) \<and>
           ((\<forall>k \<le> j. cpufreq (0 + k) = None) \<longrightarrow> speed e = cpuspeed La) \<and>
           (\<forall>v. cpufreq (0 + j) = Some (dec v @ [CHR 0x0A]) \<and> v < 2 ^ 32 \<longrightarrow>
                unat (speed e) = v div 1000)) \<and>
      (\<forall>j < 0. cpus' ! j = ?cpus0 ! j)"
    by (rule stat_loop_cores [OF cores tail])
  then obtain cpus where
    r: "stat_loop ?m cpufreq ?body 0 La ?cpus0 = Returned cpus" and
    l: "0 + length cores \<le> length cpus" and
    t0: "\<forall>j < length cores. \<exists>e. cpus ! (0 + j) = Some e \<and>
           times e = ticks_ms (ucast ?m) (snd (cores ! j)) \<and>
           ((\<forall>k \<le> j. cpufreq (0 + k) = None) \<longrightarrow> speed e = cpuspeed La) \<and>
           (\<forall>v. cpufreq (0 + j) = Some (dec v @ [CHR 0x0A]) \<and> v < 2 ^ 32 \<longrightarrow>
                unat (speed e) = v div 1000)"
    by blast
  have run: "GetCPUInfo sc_clk_tck (Some (agg @ ?body)) proc_cpuinfo cpufreq L0 = Returned (0, cpus)"
    using clk by (simp add: GetCPUInfo_def Let_def info first r)
  from t0 have "\<forall>j < length cores. \<exists>e. cpus ! j = Some e \<and>
           times e = ticks_ms (word_of_nat (1000 div unat ?ticks)) (snd (cores ! j)) \<and>
           ((\<forall>k \<le> j. cpufreq k = None) \<longrightarrow> speed e = cpuspeed L1) \<and>
           (\<forall>v. cpufreq j = Some (dec v @ [CHR 0x0A]) \<and> v < 2 ^ 32 \<longrightarrow>
                unat (speed e) = v div 1000)"
    by (simp add: ucast_multiplier sa)
  with run l show ?thesis by simp
qed

text \<open>
  C7 at two failing inputs.  With 1024 clock ticks per second (the value of Linux on
  Alpha and IA-64) the multiplier \<open>1000 / ticks\<close> is the integer quotient 0, and a
  core with 100 user ticks, which are 97.6 ms, is reported with 0 ms, as is every other
  time.  With 100 ticks per second and a line \<open>cpu1 6 11\<close> that ends after two
  counters, \<open>sscanf\<close> assigns two variables, its result is not looked at, and core 1
  is reported with the system, idle and irq times of core 0.
\<close>

theorem GetCPUInfo_times_not_ms:
  "GetCPUInfo 1024
     (Some (''cpu  100 200 300 400 500 600 700'' @ [CHR 0x0A] @
            ''cpu0 100 200 300 400 500 600 700'' @ [CHR 0x0A] @ ''intr 100 2 3'' @ [CHR 0x0A]))
     (Some (''processor : 0'' @ [CHR 0x0A] @ ''model name : Test CPU'' @ [CHR 0x0A] @
            ''cpu MHz : 1000.000'' @ [CHR 0x0A]))
     (\<lambda>i. None)
     \<lparr>line = replicate 512 (CHR 0x00), model = replicate 512 (CHR 0x00), cpuspeed = s0,
      numcpus = n0, ticks_user = t1, ticks_nice = t2, ticks_sys = t3, ticks_idle = t4,
      ticks_intr = t5\<rparr> =
   Returned (0,
     [Some \<lparr>model_name = ''Test CPU'', speed = 1000,
            times = \<lparr>user = 0, nice = 0, sys = 0, idle = 0, irq = 0\<rparr>\<rparr>]) \<and>
   GetCPUInfo 100
     (Some (''cpu0 5 10 15 20 25 30 35'' @ [CHR 0x0A] @ ''cpu1 6 11'' @ [CHR 0x0A]))
     (Some (''processor : 0'' @ [CHR 0x0A] @ ''model name : Test CPU'' @ [CHR 0x0A] @
            ''cpu MHz : 1000.000'' @ [CHR 0x0A] @ [CHR 0x0A] @
            ''processor : 1'' @ [CHR 0x0A] @ ''model name : Test CPU'' @ [CHR 0x0A] @
            ''cpu MHz : 1000.000'' @ [CHR 0x0A]))
     (\<lambda>i. None)
     \<lparr>line = replicate 512 (CHR 0x00), model = replicate 512 (CHR 0x00), cpuspeed = s0,
      numcpus = n0, ticks_user = t1, ticks_nice = t2, ticks_sys = t3, ticks_idle = t4,
      ticks_intr = t5\<rparr> =
   Returned (0,
     [Some \<lparr>model_name = ''Test CPU'', speed = 1000,
            times = \<lparr>user = 50, nice = 100, sys = 150, idle = 200, irq = 300\<rparr>\<rparr>,
      Some \<lparr>model_name = ''Test CPU'', speed = 1000,
            times = \<lparr>user = 60, nice = 110, sys = 150, idle = 200, irq = 300\<rparr>\<rparr>])"
  by (simp add: cpu_eval)

text \<open>
  For a counters source made of an optional aggregate line, core lines as the kernel
  writes them, with six counters or more, and a rest that does not start with
  \<open>cpu\<close>, \<open>GetCPUInfo\<close> reports for the core of each line the five times user,
  nice, system, idle and irq, each the number made of the tick counter of that line
  multiplied by \<open>1000 / ticks\<close>, where \<open>ticks\<close> is \<open>sysconf(_SC_CLK_TCK)\<close> as an
  \<open>unsigned int\<close>, the quotient is the integer one that the code computes once and
  the product is an \<open>unsigned long long\<close>.  The call is taken where the descriptor
  phase ends normally and leaves a terminated string in \<open>model\<close>.
\<close>

theorem GetCPUInfo_times_in_ms:
  assumes clk: "(word_of_int sc_clk_tck :: 32 word) \<noteq> 0"
    and info: "read_cpuinfo proc_cpuinfo (L0\<lparr>numcpus := 0\<rparr>) = Returned L1"
    and nul: "CHR 0x00 \<in> set (model L1)"
    and agg: "agg = [] \<or> text_line agg \<and> take 4 agg = ''cpu ''"
    and cores: "\<forall>nc \<in> set cores. counters_ok nc"
    and tail: "tail = [] \<or> take 3 tail \<noteq> ''cpu''"
  shows "\<exists>cpus. GetCPUInfo sc_clk_tck
                  (Some (agg @ concat (map (\<lambda>(n, cs). cpu_line n cs) cores) @ tail))
                  proc_cpuinfo cpufreq L0 = Returned (0, cpus) \<and>
               length cores \<le> length cpus \<and>
               (\<forall>j < length cores. \<exists>e. cpus ! j = Some e \<and>
                  user (times e) = Number_New (word_of_nat (snd (cores ! j) ! 0) *
                     word_of_nat (1000 div unat (word_of_int sc_clk_tck :: 32 word))) \<and>
                  nice (times e) = Number_New (word_of_nat (snd (cores ! j) ! 1) *
                     word_of_nat (1000 div unat (word_of_int sc_clk_tck :: 32 word))) \<and>
                  sys (times e) = Number_New (word_of_nat (snd (cores ! j) ! 2) *
                     word_of_nat (1000 div unat (word_of_int sc_clk_tck :: 32 word))) \<and>
                  idle (times e) = Number_New (word_of_nat (snd (cores ! j) ! 3) *
                     word_of_nat (1000 div unat (word_of_int sc_clk_tck :: 32 word))) \<and>
                  irq (times e) = Number_New (word_of_nat (snd (cores ! j) ! 5) *
                     word_of_nat (1000 div unat (word_of_int sc_clk_tck :: 32 word))))"
proof -
  from GetCPUInfo_cores [OF assms, of cpufreq] obtain cpus where
    run: "GetCPUInfo sc_clk_tck
            (Some (agg @ concat (map (\<lambda>(n, cs). cpu_line n cs) cores) @ tail))
            proc_cpuinfo cpufreq L0 = Returned (0, cpus)" and
    l: "length cores \<le> length cpus" and
    t: "\<forall>j < length cores. \<exists>e. cpus ! j = Some e \<and>
           times e = ticks_ms (word_of_nat (1000 div unat (word_of_int sc_clk_tck :: 32 word)))
                       (snd (cores ! j))"
    by blast
  from t have "\<forall>j < length cores. \<exists>e. cpus ! j = Some e \<and>
                  user (times e) = Number_New (word_of_nat (snd (cores ! j) ! 0) *
                     word_of_nat (1000 div unat (word_of_int sc_clk_tck :: 32 word))) \<and>
                  nice (times e) = Number_New (word_of_nat (snd (cores ! j) ! 1) *
                     word_of_nat (1000 div unat (word_of_int sc_clk_tck :: 32 word))) \<and>
                  sys (times e) = Number_New (word_of_nat (snd (cores ! j) ! 2) *
                     word_of_nat (1000 div unat (word_of_int sc_clk_tck :: 32 word))) \<and>
                  idle (times e) = Number_New (word_of_nat (snd (cores ! j) ! 3) *
                     word_of_nat (1000 div unat (word_of_int sc_clk_tck :: 32 word))) \<and>
                  irq (times e) = Number_New (word_of_nat (snd (cores ! j) ! 5) *
                     word_of_nat (1000 div unat (word_of_int sc_clk_tck :: 32 word)))"
    by (auto simp: ticks_ms_def)
  with run l show ?thesis by blast
qed

theorem GetCPUInfo_times_in_ms_witness:
  "\<exists>cpus. GetCPUInfo 100
      (Some (''cpu  10 20 30 40 50 60 70'' @ [CHR 0x0A] @ ''cpu0 5 10 15 20 25 30 35'' @ [CHR 0x0A] @
             ''cpu1 6 11 16 21 26 31 36'' @ [CHR 0x0A] @ ''intr 100 2 3'' @ [CHR 0x0A]))
      (Some (''model name : Test CPU'' @ [CHR 0x0A] @ ''cpu MHz : 1000.000'' @ [CHR 0x0A]))
      (\<lambda>i. None)
      \<lparr>line = replicate 512 (CHR 0x00), model = replicate 512 (CHR 0x00), cpuspeed = 0,
       numcpus = 0, ticks_user = 0, ticks_nice = 0, ticks_sys = 0, ticks_idle = 0,
       ticks_intr = 0\<rparr> = Returned (0, cpus) \<and>
     (\<exists>e. cpus ! 0 = Some e \<and> user (times e) = 50 \<and> nice (times e) = 100 \<and>
          sys (times e) = 150 \<and> idle (times e) = 200 \<and> irq (times e) = 300) \<and>
     (\<exists>e. cpus ! 1 = Some e \<and> user (times e) = 60 \<and> nice (times e) = 110 \<and>
          sys (times e) = 160 \<and> idle (times e) = 210 \<and> irq (times e) = 310)"
proof -
  let ?L0 = "\<lparr>line = replicate 512 (CHR 0x00), model = replicate 512 (CHR 0x00), cpuspeed = 0,
       numcpus = 0, ticks_user = 0, ticks_nice = 0, ticks_sys = 0, ticks_idle = 0,
       ticks_intr = 0\<rparr>"
  let ?info = "Some (''model name : Test CPU'' @ [CHR 0x0A] @ ''cpu MHz : 1000.000'' @ [CHR 0x0A])"
  let ?agg = "''cpu  10 20 30 40 50 60 70'' @ [CHR 0x0A]"
  let ?cores = "[(0, [5, 10, 15, 20, 25, 30, 35]), (1, [6, 11, 16, 21, 26, 31, 36])] :: (nat \<times> nat list) list"
  let ?tail = "''intr 100 2 3'' @ [CHR 0x0A]"
  have clk: "(word_of_int 100 :: 32 word) \<noteq> 0" by simp
  have "\<exists>L1. read_cpuinfo ?info (?L0\<lparr>numcpus := 0\<rparr>) = Returned L1 \<and> CHR 0x00 \<in> set (model L1)"
    by (simp add: cpu_eval)
  then obtain L1 where info: "read_cpuinfo ?info (?L0\<lparr>numcpus := 0\<rparr>) = Returned L1"
    and nul: "CHR 0x00 \<in> set (model L1)" by blast
  have agg: "?agg = [] \<or> text_line ?agg \<and> take 4 ?agg = ''cpu ''"
    by (simp add: text_line_def)
  have cores: "\<forall>nc \<in> set ?cores. counters_ok nc"
    by (simp add: counters_ok_def cpu_line_def record_eval)
  have tail: "?tail = [] \<or> take 3 ?tail \<noteq> ''cpu''" by simp
  have whole: "?agg @ concat (map (\<lambda>(n, cs). cpu_line n cs) ?cores) @ ?tail =
      ''cpu  10 20 30 40 50 60 70'' @ [CHR 0x0A] @ ''cpu0 5 10 15 20 25 30 35'' @ [CHR 0x0A] @
             ''cpu1 6 11 16 21 26 31 36'' @ [CHR 0x0A] @ ''intr 100 2 3'' @ [CHR 0x0A]"
    by (simp add: cpu_line_def record_eval)
  from GetCPUInfo_times_in_ms [OF clk info nul agg cores tail, of "\<lambda>i. None"]
  obtain cpus where
    r: "GetCPUInfo 100 (Some (?agg @ concat (map (\<lambda>(n, cs). cpu_line n cs) ?cores) @ ?tail))
          ?info (\<lambda>i. None) ?L0 = Returned (0, cpus)" and
    t: "\<And>j. j < length ?cores \<Longrightarrow> \<exists>e. cpus ! j = Some e \<and>
                  user (times e) = Number_New (word_of_nat (snd (?cores ! j) ! 0) *
                     word_of_nat (1000 div unat (word_of_int 100 :: 32 word))) \<and>
                  nice (times e) = Number_New (word_of_nat (snd (?cores ! j) ! 1) *
                     word_of_nat (1000 div unat (word_of_int 100 :: 32 word))) \<and>
                  sys (times e) = Number_New (word_of_nat (snd (?cores ! j) ! 2) *
                     word_of_nat (1000 div unat (word_of_int 100 :: 32 word))) \<and>
                  idle (times e) = Number_New (word_of_nat (snd (?cores ! j) ! 3) *
                     word_of_nat (1000 div unat (word_of_int 100 :: 32 word))) \<and>
                  irq (times e) = Number_New (word_of_nat (snd (?cores ! j) ! 5) *
                     word_of_nat (1000 div unat (word_of_int 100 :: 32 word)))"
    by blast
  have c0: "\<exists>e. cpus ! 0 = Some e \<and> user (times e) = 50 \<and> nice (times e) = 100 \<and>
          sys (times e) = 150 \<and> idle (times e) = 200 \<and> irq (times e) = 300"
    using t [of 0] by (simp add: Number_New_exact)
  have c1: "\<exists>e. cpus ! 1 = Some e \<and> user (times e) = 60 \<and> nice (times e) = 110 \<and>
          sys (times e) = 160 \<and> idle (times e) = 210 \<and> irq (times e) = 310"
    using t [of 1] by (simp add: Number_New_exact)
  from r c0 c1 show ?thesis
    unfolding whole by blast
qed

text \<open>
  The speeds, for the same counters source: a core whose frequency file holds a number
  of kHz below \<open>2^32\<close> reports that number divided by 1000; a core reports the value
  \<open>cpuspeed\<close> has after the descriptor phase when neither it nor any core before it
  has a frequency file.
\<close>

theorem GetCPUInfo_speed:
  assumes clk: "(word_of_int sc_clk_tck :: 32 word) \<noteq> 0"
    and info: "read_cpuinfo proc_cpuinfo (L0\<lparr>numcpus := 0\<rparr>) = Returned L1"
    and nul: "CHR 0x00 \<in> set (model L1)"
    and agg: "agg = [] \<or> text_line agg \<and> take 4 agg = ''cpu ''"
    and cores: "\<forall>nc \<in> set cores. counters_ok nc"
    and tail: "tail = [] \<or> take 3 tail \<noteq> ''cpu''"
  shows "\<exists>cpus. GetCPUInfo sc_clk_tck
                  (Some (agg @ concat (map (\<lambda>(n, cs). cpu_line n cs) cores) @ tail))
                  proc_cpuinfo cpufreq L0 = Returned (0, cpus) \<and>
               (\<forall>j < length cores. \<exists>e. cpus ! j = Some e \<and>
                  ((\<forall>k \<le> j. cpufreq k = None) \<longrightarrow> speed e = cpuspeed L1) \<and>
                  (\<forall>v. cpufreq j = Some (dec v @ [CHR 0x0A]) \<and> v < 2 ^ 32 \<longrightarrow>
                       unat (speed e) = v div 1000))"
proof -
  from GetCPUInfo_cores [OF assms, of cpufreq] obtain cpus where
    run: "GetCPUInfo sc_clk_tck
            (Some (agg @ concat (map (\<lambda>(n, cs). cpu_line n cs) cores) @ tail))
            proc_cpuinfo cpufreq L0 = Returned (0, cpus)" and
    t: "\<forall>j < length cores. \<exists>e. cpus ! j = Some e \<and>
           times e = ticks_ms (word_of_nat (1000 div unat (word_of_int sc_clk_tck :: 32 word)))
                       (snd (cores ! j)) \<and>
           ((\<forall>k \<le> j. cpufreq k = None) \<longrightarrow> speed e = cpuspeed L1) \<and>
           (\<forall>v. cpufreq j = Some (dec v @ [CHR 0x0A]) \<and> v < 2 ^ 32 \<longrightarrow>
                unat (speed e) = v div 1000)"
    by blast
  from t have "\<forall>j < length cores. \<exists>e. cpus ! j = Some e \<and>
           ((\<forall>k \<le> j. cpufreq k = None) \<longrightarrow> speed e = cpuspeed L1) \<and>
           (\<forall>v. cpufreq j = Some (dec v @ [CHR 0x0A]) \<and> v < 2 ^ 32 \<longrightarrow>
                unat (speed e) = v div 1000)"
    by blast
  with run show ?thesis by blast
qed

theorem GetCPUInfo_speed_witness:
  "(\<exists>cpus. GetCPUInfo 100
      (Some (''cpu  10 20 30 40 50 60 70'' @ [CHR 0x0A] @ ''cpu0 5 10 15 20 25 30 35'' @ [CHR 0x0A] @
             ''cpu1 6 11 16 21 26 31 36'' @ [CHR 0x0A] @ ''intr 100 2 3'' @ [CHR 0x0A]))
      (Some (''model name : Test CPU'' @ [CHR 0x0A] @ ''cpu MHz : 1000.000'' @ [CHR 0x0A]))
      (\<lambda>i. if i = 0 then Some (''2400000'' @ [CHR 0x0A]) else None)
      \<lparr>line = replicate 512 (CHR 0x00), model = replicate 512 (CHR 0x00), cpuspeed = 0,
       numcpus = 0, ticks_user = 0, ticks_nice = 0, ticks_sys = 0, ticks_idle = 0,
       ticks_intr = 0\<rparr> = Returned (0, cpus) \<and>
     (\<exists>e. cpus ! 0 = Some e \<and> unat (speed e) = 2400)) \<and>
   (\<exists>cpus. GetCPUInfo 100
      (Some (''cpu  10 20 30 40 50 60 70'' @ [CHR 0x0A] @ ''cpu0 5 10 15 20 25 30 35'' @ [CHR 0x0A] @
             ''cpu1 6 11 16 21 26 31 36'' @ [CHR 0x0A] @ ''intr 100 2 3'' @ [CHR 0x0A]))
      (Some (''model name : Test CPU'' @ [CHR 0x0A] @ ''cpu MHz : 1000.000'' @ [CHR 0x0A]))
      (\<lambda>i. None)
      \<lparr>line = replicate 512 (CHR 0x00), model = replicate 512 (CHR 0x00), cpuspeed = 0,
       numcpus = 0, ticks_user = 0, ticks_nice = 0, ticks_sys = 0, ticks_idle = 0,
       ticks_intr = 0\<rparr> = Returned (0, cpus) \<and>
     (\<exists>e. cpus ! 1 = Some e \<and> speed e = 1000))"
proof -
  let ?L0 = "\<lparr>line = replicate 512 (CHR 0x00), model = replicate 512 (CHR 0x00), cpuspeed = 0,
       numcpus = 0, ticks_user = 0, ticks_nice = 0, ticks_sys = 0, ticks_idle = 0,
       ticks_intr = 0\<rparr>"
  let ?info = "Some (''model name : Test CPU'' @ [CHR 0x0A] @ ''cpu MHz : 1000.000'' @ [CHR 0x0A])"
  let ?agg = "''cpu  10 20 30 40 50 60 70'' @ [CHR 0x0A]"
  let ?cores = "[(0, [5, 10, 15, 20, 25, 30, 35]), (1, [6, 11, 16, 21, 26, 31, 36])] :: (nat \<times> nat list) list"
  let ?tail = "''intr 100 2 3'' @ [CHR 0x0A]"
  let ?f = "\<lambda>i :: nat. if i = 0 then Some (''2400000'' @ [CHR 0x0A]) else None"
  let ?g = "\<lambda>i :: nat. None :: string option"
  have clk: "(word_of_int 100 :: 32 word) \<noteq> 0" by simp
  have "\<exists>L1. read_cpuinfo ?info (?L0\<lparr>numcpus := 0\<rparr>) = Returned L1 \<and>
          CHR 0x00 \<in> set (model L1) \<and> cpuspeed L1 = 1000"
    by (simp add: cpu_eval)
  then obtain L1 where info: "read_cpuinfo ?info (?L0\<lparr>numcpus := 0\<rparr>) = Returned L1"
    and nul: "CHR 0x00 \<in> set (model L1)" and fb: "cpuspeed L1 = 1000" by blast
  have agg: "?agg = [] \<or> text_line ?agg \<and> take 4 ?agg = ''cpu ''"
    by (simp add: text_line_def)
  have cores: "\<forall>nc \<in> set ?cores. counters_ok nc"
    by (simp add: counters_ok_def cpu_line_def record_eval)
  have tail: "?tail = [] \<or> take 3 ?tail \<noteq> ''cpu''" by simp
  have whole: "?agg @ concat (map (\<lambda>(n, cs). cpu_line n cs) ?cores) @ ?tail =
      ''cpu  10 20 30 40 50 60 70'' @ [CHR 0x0A] @ ''cpu0 5 10 15 20 25 30 35'' @ [CHR 0x0A] @
             ''cpu1 6 11 16 21 26 31 36'' @ [CHR 0x0A] @ ''intr 100 2 3'' @ [CHR 0x0A]"
    by (simp add: cpu_line_def record_eval)
  have khz: "dec 2400000 @ [CHR 0x0A] = ''2400000'' @ [CHR 0x0A]"
    by (simp add: dec.simps digit_char_def)
  from GetCPUInfo_speed [OF clk info nul agg cores tail, of ?f]
  obtain cpus where
    r: "GetCPUInfo 100 (Some (?agg @ concat (map (\<lambda>(n, cs). cpu_line n cs) ?cores) @ ?tail))
          ?info ?f ?L0 = Returned (0, cpus)" and
    t: "\<And>j. j < length ?cores \<Longrightarrow> \<exists>e. cpus ! j = Some e \<and>
           (\<forall>v. ?f j = Some (dec v @ [CHR 0x0A]) \<and> v < 2 ^ 32 \<longrightarrow> unat (speed e) = v div 1000)"
    by blast
  from t [of 0] obtain e where e: "cpus ! 0 = Some e"
    and ev: "\<And>v. ?f 0 = Some (dec v @ [CHR 0x0A]) \<Longrightarrow> v < 2 ^ 32 \<Longrightarrow> unat (speed e) = v div 1000"
    by auto
  have "unat (speed e) = 2400000 div 1000"
    by (rule ev) (simp_all add: khz)
  then have c0: "\<exists>e. cpus ! 0 = Some e \<and> unat (speed e) = 2400"
    using e by simp
  from GetCPUInfo_speed [OF clk info nul agg cores tail, of ?g]
  obtain cpus' where
    r': "GetCPUInfo 100 (Some (?agg @ concat (map (\<lambda>(n, cs). cpu_line n cs) ?cores) @ ?tail))
          ?info ?g ?L0 = Returned (0, cpus')" and
    t': "\<And>j. j < length ?cores \<Longrightarrow> \<exists>e. cpus' ! j = Some e \<and>
           ((\<forall>k \<le> j. ?g k = None) \<longrightarrow> speed e = cpuspeed L1)"
    by blast
  from t' [of 1] fb have c1: "\<exists>e. cpus' ! 1 = Some e \<and> speed e = 1000"
    by simp
  from r c0 r' c1 show ?thesis
    unfolding whole by blast
qed

subsection \<open>Unreadable sources\<close>





end
